theory Spec2Isabelle
  imports Main "HOL-Library.Sublist" "HOL-Library.List_Lexorder" "HOL-Library.Char_ord"
    "HOL-Library.AList" "HOL-Library.Multiset"
begin

section \<open>Errors, file contents and the world the program acts on\<close>

text \<open>
  The module \<^verbatim>\<open>s3backup/backups.py\<close> is modelled by explicit state passing. Every
  operation takes the world (local filesystem, remote buckets, a trace of the calls made
  to the operating system and to the S3 client) and returns a result together with the
  new world. A raised exception is the value \<open>Inl e\<close>; a normal return is \<open>Inr v\<close>.
  The constructors of \<open>error\<close> are the exception classes the source raises or lets
  through.
\<close>

datatype error =
    IndexError | KeyError | EnvironmentError | ValueError | ClientError
  | S3UploadFailedError | OSError | IOError | ReadError | Exception
  | DistutilsFileError

text \<open>
  A file holds either plain bytes or a gzip-compressed tar archive, kept as its list of
  members: a member is a name with \<open>Some\<close> contents (a regular file) or \<open>None\<close>
  (a directory entry). Byte strings that are not archives are \<open>Bytes\<close>.
\<close>

datatype content = Bytes string | TarGz "(string \<times> content option) list"

datatype node = Dir | File content

text \<open>The calls the program makes to the outside, in the order it makes them.\<close>

datatype event =
    ListObjects string string
  | UploadFile string string string
  | DownloadFile string string string
  | DeleteObjects string "string list"
  | Makedirs string
  | Rmtree string
  | WriteFile string
  | Unlink string

text \<open>Kinds of outside call that the environment may make fail (network down, disk full).\<close>

datatype prim = PListObjects | PUploadFile | PDownloadFile | PDeleteObjects | PCopy | PTarWrite

text \<open>One entry of a bucket, with the four fields of a listing entry and the stored body.\<close>

record s3_object =
  Key :: string
  LastModified :: int
  ETag :: string
  Size :: nat
  Body :: content

text \<open>
  The local filesystem is a finite table from absolute path strings to nodes; a path
  denotes a file by its literal string (no symbolic links, the root and the current
  directory always exist). A bucket is the list of its objects in listing order.
  The remaining fields are the environment: which outside calls fail, the server clock,
  the digest and size the service assigns to a body, the results of \<^verbatim>\<open>glob.glob\<close>, and
  the home directories \<^verbatim>\<open>os.path.expanduser\<close> consults.
\<close>

record world =
  fs :: "(string \<times> node) list"
  s3 :: "string \<Rightarrow> s3_object list option"
  trace :: "event list"
  faulty :: "prim \<Rightarrow> bool"
  clock :: int
  etag_of :: "content \<Rightarrow> string"
  size_of :: "content \<Rightarrow> nat"
  glob :: "(string \<times> node) list \<Rightarrow> string \<Rightarrow> string list"
  home :: string
  pw_dir :: "string \<Rightarrow> string option"

definition log_event :: "event \<Rightarrow> world \<Rightarrow> world" where
  "log_event ev w = w\<lparr>trace := trace w @ [ev]\<rparr>"

section \<open>Strings and paths (\<^verbatim>\<open>str\<close>, \<^verbatim>\<open>os.path\<close> on POSIX)\<close>

text \<open>\<^verbatim>\<open>pattern in s\<close>: \<open>pattern\<close> occurs in \<open>s\<close> as a contiguous substring.\<close>

fun py_contains :: "string \<Rightarrow> string \<Rightarrow> bool" where
  "py_contains pat [] = (pat = [])"
| "py_contains pat (c # cs) = (prefix pat (c # cs) \<or> py_contains pat cs)"

text \<open>\<^verbatim>\<open>s.split(c)\<close> for a one-character separator.\<close>

fun split_on :: "char \<Rightarrow> string \<Rightarrow> string list" where
  "split_on c [] = [[]]"
| "split_on c (x # xs) =
     (let r = split_on c xs in if x = c then [] # r else (x # hd r) # tl r)"

text \<open>\<^verbatim>\<open>s.split(sep)[-1]\<close> for a separator string: the scan is left to right over
  non-overlapping occurrences; an empty separator raises \<^verbatim>\<open>ValueError\<close>.\<close>

function split_last_from :: "string \<Rightarrow> string \<Rightarrow> string \<Rightarrow> string" where
  "split_last_from sep acc [] = acc"
| "split_last_from sep acc (c # cs) =
     (if sep \<noteq> [] \<and> prefix sep (c # cs)
      then split_last_from sep [] (drop (length sep) (c # cs))
      else split_last_from sep (acc @ [c]) cs)"
  by pat_completeness auto
termination
  by (relation "measure (\<lambda>(sep, acc, rest). length rest)") auto

definition py_split_last :: "string \<Rightarrow> string \<Rightarrow> error + string" where
  "py_split_last s sep = (if sep = [] then Inl ValueError else Inr (split_last_from sep [] s))"

definition lstrip_sep :: "string \<Rightarrow> string" where
  "lstrip_sep s = dropWhile (\<lambda>c. c = CHR ''/'') s"

definition rstrip_sep :: "string \<Rightarrow> string" where
  "rstrip_sep s = rev (dropWhile (\<lambda>c. c = CHR ''/'') (rev s))"

text \<open>\<^verbatim>\<open>sep.join(parts)\<close>.\<close>

fun join_sep :: "string \<Rightarrow> string list \<Rightarrow> string" where
  "join_sep sep [] = []"
| "join_sep sep [x] = x"
| "join_sep sep (x # y # ys) = x @ sep @ join_sep sep (y # ys)"

text \<open>\<^verbatim>\<open>os.path.join(a, b)\<close>.\<close>

definition os_path_join :: "string \<Rightarrow> string \<Rightarrow> string" where
  "os_path_join a b =
     (if prefix ''/'' b then b
      else if a = [] \<or> last a = CHR ''/'' then a @ b
      else a @ ''/'' @ b)"

text \<open>\<^verbatim>\<open>os.path.split(p)\<close>: head is everything up to and including the last slash, with
  trailing slashes stripped unless it consists of slashes only; tail is the rest.\<close>

definition split_head_raw :: "string \<Rightarrow> string" where
  "split_head_raw p = rev (dropWhile (\<lambda>c. c \<noteq> CHR ''/'') (rev p))"

definition os_path_dirname :: "string \<Rightarrow> string" where
  "os_path_dirname p =
     (let head = split_head_raw p in
      if head \<noteq> [] \<and> head \<noteq> replicate (length head) CHR ''/'' then rstrip_sep head else head)"

definition os_path_basename :: "string \<Rightarrow> string" where
  "os_path_basename p = rev (takeWhile (\<lambda>c. c \<noteq> CHR ''/'') (rev p))"

text \<open>\<^verbatim>\<open>os.path.normpath\<close>: the loop over the components, then the re-assembly.\<close>

fun norm_comps :: "bool \<Rightarrow> string list \<Rightarrow> string list \<Rightarrow> string list" where
  "norm_comps initial [] new_comps = new_comps"
| "norm_comps initial (comp' # comps) new_comps =
     (if comp' = [] \<or> comp' = ''.'' then norm_comps initial comps new_comps
      else if comp' \<noteq> ''..'' \<or> (\<not> initial \<and> new_comps = [])
              \<or> (new_comps \<noteq> [] \<and> last new_comps = ''..'')
        then norm_comps initial comps (new_comps @ [comp'])
      else if new_comps \<noteq> [] then norm_comps initial comps (butlast new_comps)
      else norm_comps initial comps new_comps)"

definition os_path_normpath :: "string \<Rightarrow> string" where
  "os_path_normpath p =
     (if p = [] then ''.''
      else
        let initial_slashes =
              (if prefix ''/'' p
               then (if prefix ''//'' p \<and> \<not> prefix ''///'' p then 2 else 1)
               else (0::nat));
            comps = norm_comps (initial_slashes \<noteq> 0) (split_on CHR ''/'' p) [];
            q = replicate initial_slashes CHR ''/'' @ join_sep ''/'' comps
        in if q = [] then ''.'' else q)"

text \<open>\<^verbatim>\<open>os.path.expanduser\<close>: only a leading tilde is expanded, from the environment.\<close>

definition os_path_expanduser :: "world \<Rightarrow> string \<Rightarrow> string" where
  "os_path_expanduser w p =
     (if \<not> prefix ''~'' p then p
      else
        let i = Suc (length (takeWhile (\<lambda>c. c \<noteq> CHR ''/'') (tl p)));
            userhome = (if i = 1 then Some (home w) else pw_dir w (take (i - 1) (tl p)))
        in case userhome of
             None \<Rightarrow> p
           | Some h \<Rightarrow> (let r = rstrip_sep h @ drop i p in if r = [] then ''/'' else r))"

text \<open>\<^verbatim>\<open>str(n)\<close> for an integer.\<close>

function str_int :: "int \<Rightarrow> string" where
  "str_int n =
     (if n < 0 then CHR ''-'' # str_int (- n)
      else if n < 10 then [char_of (48 + n)]
      else str_int (n div 10) @ [char_of (48 + n mod 10)])"
  by pat_completeness auto
termination
  by (relation "measure (\<lambda>n. if n < 0 then nat (- n) + 1 else nat n)") auto

declare str_int.simps [simp del]

section \<open>The local filesystem (\<^verbatim>\<open>os\<close>, \<^verbatim>\<open>shutil\<close>, \<^verbatim>\<open>distutils.dir_util\<close>)\<close>

definition isdir :: "(string \<times> node) list \<Rightarrow> string \<Rightarrow> bool" where
  "isdir t p = (p = ''/'' \<or> map_of t p = Some Dir)"

definition isfile :: "(string \<times> node) list \<Rightarrow> string \<Rightarrow> bool" where
  "isfile t p = (case map_of t p of Some (File c) \<Rightarrow> True | _ \<Rightarrow> False)"

definition parent_is_dir :: "(string \<times> node) list \<Rightarrow> string \<Rightarrow> bool" where
  "parent_is_dir t p = (let d = os_path_dirname p in d = [] \<or> isdir t d)"

text \<open>\<open>under d p\<close>: the path \<open>p\<close> is \<open>d\<close> itself or lies below the directory \<open>d\<close>.\<close>

definition under :: "string \<Rightarrow> string \<Rightarrow> bool" where
  "under d p = (p = d \<or> prefix (d @ ''/'') p)"

text \<open>The proper ancestors of a path, outermost first (the root is left out).\<close>

definition ancestors :: "string \<Rightarrow> string list" where
  "ancestors p = map (\<lambda>i. take i p) (filter (\<lambda>i. p ! i = CHR ''/'') [1..<length p])"

fun mk_dirs :: "string list \<Rightarrow> (string \<times> node) list \<Rightarrow> (string \<times> node) list" where
  "mk_dirs [] t = t"
| "mk_dirs (d # ds) t = mk_dirs ds (if map_of t d = None then t @ [(d, Dir)] else t)"

text \<open>\<^verbatim>\<open>os.makedirs(p)\<close>: creates \<open>p\<close> and the ancestors that are missing; raises
  \<^verbatim>\<open>OSError\<close> when \<open>p\<close> exists already or a file is in the way.\<close>

definition os_makedirs :: "string \<Rightarrow> world \<Rightarrow> (error + unit) \<times> world" where
  "os_makedirs p w =
     (let w' = log_event (Makedirs p) w in
      if p = ''/'' \<or> map_of (fs w) p \<noteq> None then (Inl OSError, w')
      else if list_ex (isfile (fs w)) (ancestors p) then (Inl OSError, w')
      else (Inr (), w'\<lparr>fs := mk_dirs (ancestors p @ [p]) (fs w)\<rparr>))"

text \<open>Creating a directory that may exist already (\<^verbatim>\<open>mkpath\<close> of distutils, the
  directory creation of \<^verbatim>\<open>tarfile\<close>); \<open>err\<close> is what the caller's library raises when a
  file is in the way.\<close>

definition ensure_dir :: "error \<Rightarrow> string \<Rightarrow> world \<Rightarrow> (error + unit) \<times> world" where
  "ensure_dir err p w =
     (if p = [] \<or> isdir (fs w) p then (Inr (), w)
      else if list_ex (isfile (fs w)) (ancestors p @ [p]) then (Inl err, w)
      else (Inr (), (log_event (Makedirs p) w)\<lparr>fs := mk_dirs (ancestors p @ [p]) (fs w)\<rparr>))"

text \<open>Writing a regular file: the parent must be a directory and the path must not be
  one.\<close>

definition write_file :: "error \<Rightarrow> string \<Rightarrow> content \<Rightarrow> world \<Rightarrow> (error + unit) \<times> world" where
  "write_file err p c w =
     (let w' = log_event (WriteFile p) w in
      if isdir (fs w) p \<or> \<not> parent_is_dir (fs w) p then (Inl err, w')
      else (Inr (), w'\<lparr>fs := AList.update p (File c) (fs w)\<rparr>))"

text \<open>\<^verbatim>\<open>shutil.rmtree(p)\<close>: removes the directory \<open>p\<close> and everything below it; raises
  \<^verbatim>\<open>OSError\<close> when \<open>p\<close> is not a directory. File permissions are not modelled, so
  removing an existing directory tree always succeeds.\<close>

definition shutil_rmtree :: "string \<Rightarrow> world \<Rightarrow> (error + unit) \<times> world" where
  "shutil_rmtree p w =
     (let w' = log_event (Rmtree p) w in
      if map_of (fs w) p = Some Dir
      then (Inr (), w'\<lparr>fs := filter (\<lambda>e. \<not> under p (fst e)) (fs w)\<rparr>)
      else (Inl OSError, w'))"

text \<open>\<^verbatim>\<open>os.unlink(p)\<close>.\<close>

definition os_unlink :: "string \<Rightarrow> world \<Rightarrow> (error + unit) \<times> world" where
  "os_unlink p w =
     (let w' = log_event (Unlink p) w in
      if isfile (fs w) p then (Inr (), w'\<lparr>fs := filter (\<lambda>e. fst e \<noteq> p) (fs w)\<rparr>)
      else (Inl OSError, w'))"

text \<open>\<^verbatim>\<open>shutil.copy2(src, dst)\<close> (and \<^verbatim>\<open>copy_file\<close> of distutils, which raises \<open>err\<close>): a
  destination that is a directory receives the file under the source's base name.\<close>

definition copy_file :: "error \<Rightarrow> string \<Rightarrow> string \<Rightarrow> world \<Rightarrow> (error + unit) \<times> world" where
  "copy_file err src dst w =
     (let dst' = (if isdir (fs w) dst then os_path_join dst (os_path_basename src) else dst) in
      if faulty w PCopy then (Inl err, w)
      else case map_of (fs w) src of
             Some (File c) \<Rightarrow> write_file err dst' c w
           | _ \<Rightarrow> (Inl err, w))"

definition shutil_copy2 :: "string \<Rightarrow> string \<Rightarrow> world \<Rightarrow> (error + unit) \<times> world" where
  "shutil_copy2 src dst w = copy_file IOError src dst w"

text \<open>\<^verbatim>\<open>copy_tree(src, dst)\<close>: the destination directory is created, then every entry
  below \<open>src\<close> is copied to the same relative path below \<open>dst\<close>, directories before the
  files in them.\<close>

fun copy_entries ::
  "string \<Rightarrow> string \<Rightarrow> (string \<times> node) list \<Rightarrow> world \<Rightarrow> (error + unit) \<times> world" where
  "copy_entries src dst [] w = (Inr (), w)"
| "copy_entries src dst (e # es) w =
     (let dq = dst @ drop (length src) (fst e) in
      case (case snd e of
              Dir \<Rightarrow> ensure_dir DistutilsFileError dq w
            | File c \<Rightarrow>
                (case ensure_dir DistutilsFileError (os_path_dirname dq) w of
                   (Inl x, w') \<Rightarrow> (Inl x, w')
                 | (Inr u, w') \<Rightarrow> copy_file DistutilsFileError (fst e) dq w')) of
        (Inl x, w') \<Rightarrow> (Inl x, w')
      | (Inr u, w') \<Rightarrow> copy_entries src dst es w')"

definition copy_tree :: "string \<Rightarrow> string \<Rightarrow> world \<Rightarrow> (error + unit) \<times> world" where
  "copy_tree src dst w =
     (if \<not> isdir (fs w) src then (Inl DistutilsFileError, w)
      else case ensure_dir DistutilsFileError dst w of
             (Inl x, w') \<Rightarrow> (Inl x, w')
           | (Inr u, w') \<Rightarrow>
               copy_entries src dst (filter (\<lambda>e. prefix (src @ ''/'') (fst e)) (fs w)) w')"

section \<open>Archives (\<^verbatim>\<open>tarfile\<close>) and temporary files (\<^verbatim>\<open>tempfile\<close>)\<close>

text \<open>The members \<^verbatim>\<open>tar.add(targetpath, arcname=...)\<close> collects: the node at
  \<open>targetpath\<close> and everything below it, renamed to start at \<open>arcname\<close>; the archive
  being written is skipped.\<close>

definition tar_members ::
  "string \<Rightarrow> string \<Rightarrow> string \<Rightarrow> (string \<times> node) list \<Rightarrow> (string \<times> content option) list" where
  "tar_members tar_path targetpath arcname t =
     map (\<lambda>e. (arcname @ drop (length targetpath) (fst e),
               case snd e of Dir \<Rightarrow> None | File c \<Rightarrow> Some c))
       (filter (\<lambda>e. under targetpath (fst e) \<and> fst e \<noteq> tar_path) t)"

text \<open>\<^verbatim>\<open>with tarfile.open(tar_path, 'w:gz') as tar: tar.add(targetpath, arcname)\<close>:
  opening creates the archive file; adding a path that does not exist raises
  \<^verbatim>\<open>OSError\<close> and leaves the empty archive behind.\<close>

definition tarfile_write ::
  "string \<Rightarrow> string \<Rightarrow> string \<Rightarrow> world \<Rightarrow> (error + unit) \<times> world" where
  "tarfile_write tar_path targetpath arcname w =
     (if faulty w PTarWrite then (Inl IOError, log_event (WriteFile tar_path) w)
      else case write_file IOError tar_path (TarGz []) w of
             (Inl x, w') \<Rightarrow> (Inl x, w')
           | (Inr u, w') \<Rightarrow>
               (if map_of (fs w') targetpath = None then (Inl OSError, w')
                else (Inr (), w'\<lparr>fs := AList.update tar_path
                        (File (TarGz (tar_members tar_path targetpath arcname (fs w')))) (fs w')\<rparr>)))"

text \<open>\<^verbatim>\<open>tarfile.open(tarpath)\<close> for reading: only a file holding an archive opens; an
  empty or otherwise non-archive file raises \<^verbatim>\<open>ReadError\<close>.\<close>

definition tarfile_open ::
  "string \<Rightarrow> world \<Rightarrow> error + (string \<times> content option) list" where
  "tarfile_open tarpath w =
     (case map_of (fs w) tarpath of
        Some (File (TarGz ms)) \<Rightarrow> Inr ms
      | Some (File (Bytes b)) \<Rightarrow> Inl ReadError
      | _ \<Rightarrow> Inl IOError)"

text \<open>\<^verbatim>\<open>f.extractall(directory)\<close>: every member is created at
  \<^verbatim>\<open>os.path.join(directory, name)\<close>, missing parent directories included.\<close>

definition extract_member ::
  "(string \<times> content option) \<Rightarrow> string \<Rightarrow> world \<Rightarrow> (error + unit) \<times> world" where
  "extract_member m directory w =
     (let p = os_path_join directory (fst m) in
      case snd m of
        None \<Rightarrow> ensure_dir OSError p w
      | Some c \<Rightarrow>
          (case ensure_dir OSError (os_path_dirname p) w of
             (Inl x, w') \<Rightarrow> (Inl x, w')
           | (Inr u, w') \<Rightarrow> write_file OSError p c w'))"

fun extractall ::
  "(string \<times> content option) list \<Rightarrow> string \<Rightarrow> world \<Rightarrow> (error + unit) \<times> world" where
  "extractall [] directory w = (Inr (), w)"
| "extractall (m # ms) directory w =
     (case extract_member m directory w of
        (Inl x, w') \<Rightarrow> (Inl x, w')
      | (Inr u, w') \<Rightarrow> extractall ms directory w')"

text \<open>\<^verbatim>\<open>tempfile.NamedTemporaryFile()\<close>: entering creates an empty file under the name
  the environment picks; leaving the \<^verbatim>\<open>with\<close> block closes and unlinks it.\<close>

definition NamedTemporaryFile :: "string \<Rightarrow> world \<Rightarrow> (error + string) \<times> world" where
  "NamedTemporaryFile tmpname w =
     (if map_of (fs w) tmpname \<noteq> None then (Inl OSError, w)
      else case write_file OSError tmpname (Bytes []) w of
             (Inl x, w') \<Rightarrow> (Inl x, w')
           | (Inr u, w') \<Rightarrow> (Inr tmpname, w'))"

section \<open>The S3 client (\<^verbatim>\<open>boto3\<close>)\<close>

text \<open>The number of keys one listing request returns at most, and one deletion request
  accepts at most.\<close>

definition max_keys :: nat where
  "max_keys = 1000"

text \<open>\<^verbatim>\<open>client.list_objects(Bucket=..., Prefix=...)\<close>, one request without a marker: the
  response holds the first \<open>max_keys\<close> objects under the prefix, in listing order, under
  its \<^verbatim>\<open>Contents\<close> key, and has no such key when no object is under the prefix. The
  result is the value under \<^verbatim>\<open>Contents\<close>, \<open>None\<close> when the response has no such key.\<close>

definition client_list_objects ::
  "string \<Rightarrow> string \<Rightarrow> world \<Rightarrow> (error + s3_object list option) \<times> world" where
  "client_list_objects b pfx w =
     (let w' = log_event (ListObjects b pfx) w in
      if faulty w PListObjects then (Inl ClientError, w')
      else case s3 w b of
             None \<Rightarrow> (Inl ClientError, w')
           | Some objs \<Rightarrow>
               (let cs = take max_keys (filter (\<lambda>ob. prefix pfx (Key ob)) objs) in
                (Inr (if cs = [] then None else Some cs), w')))"

text \<open>\<^verbatim>\<open>client.upload_file(path, bucket, key)\<close>: stores the local file's contents under
  \<open>key\<close>, replacing an object of that key; the listing stays in key order.\<close>

definition client_upload_file ::
  "string \<Rightarrow> string \<Rightarrow> string \<Rightarrow> world \<Rightarrow> (error + unit) \<times> world" where
  "client_upload_file p b k w =
     (let w' = log_event (UploadFile p b k) w in
      case map_of (fs w) p of
        Some (File c) \<Rightarrow>
          (if faulty w PUploadFile then (Inl S3UploadFailedError, w')
           else case s3 w b of
                  None \<Rightarrow> (Inl S3UploadFailedError, w')
                | Some objs \<Rightarrow>
                    (Inr (), w'\<lparr>s3 := (s3 w)(b \<mapsto>
                        insort_key Key
                          \<lparr>Key = k, LastModified = clock w, ETag = etag_of w c,
                           Size = size_of w c, Body = c\<rparr>
                          (filter (\<lambda>ob. Key ob \<noteq> k) objs)),
                      clock := clock w + 1\<rparr>))
      | _ \<Rightarrow> (Inl OSError, w'))"

text \<open>\<^verbatim>\<open>client.download_file(bucket, key, local)\<close>.\<close>

definition client_download_file ::
  "string \<Rightarrow> string \<Rightarrow> string \<Rightarrow> world \<Rightarrow> (error + unit) \<times> world" where
  "client_download_file b k local w =
     (let w' = log_event (DownloadFile b k local) w in
      if faulty w PDownloadFile then (Inl ClientError, w')
      else case s3 w b of
             None \<Rightarrow> (Inl ClientError, w')
           | Some objs \<Rightarrow>
               (case find (\<lambda>ob. Key ob = k) objs of
                  None \<Rightarrow> (Inl ClientError, w')
                | Some ob \<Rightarrow> write_file IOError local (Body ob) w'))"

text \<open>\<^verbatim>\<open>client.delete_objects(Delete={"Objects": [{'Key': k}, ...]}, Bucket=...)\<close>: the
  service rejects a request that names no key, or more than \<open>max_keys\<close> keys.\<close>

definition client_delete_objects ::
  "string list \<Rightarrow> string \<Rightarrow> world \<Rightarrow> (error + unit) \<times> world" where
  "client_delete_objects keys b w =
     (let w' = log_event (DeleteObjects b keys) w in
      if faulty w PDeleteObjects \<or> keys = [] \<or> max_keys < length keys
      then (Inl ClientError, w')
      else case s3 w b of
             None \<Rightarrow> (Inl ClientError, w')
           | Some objs \<Rightarrow>
               (Inr (), w'\<lparr>s3 := (s3 w)(b \<mapsto> filter (\<lambda>ob. Key ob \<notin> set keys) objs)\<rparr>))"

section \<open>\<^verbatim>\<open>BucketObject\<close> and \<^verbatim>\<open>Collection\<close>\<close>

record bucket_object =
  modified :: int
  filename :: string
  etag :: string
  size' :: nat

definition BucketObject :: "s3_object \<Rightarrow> bucket_object" where
  "BucketObject contents =
     \<lparr>modified = LastModified contents, filename = Key contents,
      etag = ETag contents, size' = Size contents\<rparr>"

text \<open>A \<^verbatim>\<open>Collection\<close> wraps the list of its objects.\<close>

definition filenames :: "bucket_object list \<Rightarrow> string list" where
  "filenames objects = map filename objects"

text \<open>\<^verbatim>\<open>sorted(xs, key=k, reverse=desc)\<close>: the sort is stable, and with
  \<^verbatim>\<open>reverse=True\<close> elements of equal key keep their original order (the list is
  reversed, sorted stably in ascending order, and reversed again).\<close>

definition py_sorted :: "('a \<Rightarrow> 'k::linorder) \<Rightarrow> bool \<Rightarrow> 'a list \<Rightarrow> 'a list" where
  "py_sorted k desc xs = (if desc then rev (sort_key k (rev xs)) else sort_key k xs)"

text \<open>\<^verbatim>\<open>Collection.ordered(order_by='modified', desc=True)\<close>.\<close>

definition ordered :: "bool \<Rightarrow> bucket_object list \<Rightarrow> bucket_object list" where
  "ordered desc objects = py_sorted modified desc objects"

text \<open>\<^verbatim>\<open>xs[-1]\<close> and \<^verbatim>\<open>xs[i:]\<close>.\<close>

definition py_last :: "'a list \<Rightarrow> error + 'a" where
  "py_last xs = (if xs = [] then Inl IndexError else Inr (last xs))"

definition py_slice_from :: "int \<Rightarrow> 'a list \<Rightarrow> 'a list" where
  "py_slice_from i xs =
     (if 0 \<le> i then drop (nat i) xs else drop (length xs - nat (- i)) xs)"

section \<open>\<^verbatim>\<open>BackupStore\<close>\<close>

record store =
  s_bucket :: string
  s_path :: string
  s_profile :: "string option"
  s_retain :: "int option"

text \<open>\<^verbatim>\<open>__init__\<close>: the four attributes. The session and the client that the
  constructor also creates are the outside world, reached through the calls above.\<close>

definition BackupStore ::
  "string \<Rightarrow> string option \<Rightarrow> string option \<Rightarrow> int option \<Rightarrow> store" where
  "BackupStore b p profile retain =
     \<lparr>s_bucket = b, s_path = (case p of None \<Rightarrow> [] | Some q \<Rightarrow> q),
      s_profile = profile, s_retain = retain\<rparr>"

definition LATEST :: string where
  "LATEST = ''backups.latest''"

definition list_objects :: "store \<Rightarrow> world \<Rightarrow> (error + bucket_object list) \<times> world" where
  "list_objects st w =
     (case client_list_objects (s_bucket st) (s_path st) w of
        (Inl x, w') \<Rightarrow> (Inl x, w')
      | (Inr raw, w') \<Rightarrow>
          (case raw of
             None \<Rightarrow> (Inl KeyError, w')
           | Some contents \<Rightarrow> (Inr (map BucketObject contents), w')))"

definition delete :: "store \<Rightarrow> bucket_object list \<Rightarrow> world \<Rightarrow> (error + unit) \<times> world" where
  "delete st collection w = client_delete_objects (filenames collection) (s_bucket st) w"

text \<open>The body of the loop of \<^verbatim>\<open>_prune_bucket\<close>: the objects of one pattern, and what
  is handed to \<^verbatim>\<open>delete\<close> for it (\<open>None\<close> when \<^verbatim>\<open>delete\<close> is not called).\<close>

definition objects_by_pattern :: "string \<Rightarrow> bucket_object list \<Rightarrow> bucket_object list" where
  "objects_by_pattern pattern objects =
     filter (\<lambda>obj. py_contains pattern (filename obj)) objects"

definition to_prune :: "int \<Rightarrow> string \<Rightarrow> bucket_object list \<Rightarrow> bucket_object list option" where
  "to_prune retain pattern objects =
     (if int (length (objects_by_pattern pattern objects)) > retain
      then Some (py_slice_from retain (objects_by_pattern pattern objects))
      else None)"

fun prune_patterns ::
  "store \<Rightarrow> int \<Rightarrow> bucket_object list \<Rightarrow> string list \<Rightarrow> world \<Rightarrow> (error + unit) \<times> world" where
  "prune_patterns st retain objects [] w = (Inr (), w)"
| "prune_patterns st retain objects (pattern # patterns) w =
     (case to_prune retain pattern objects of
        None \<Rightarrow> prune_patterns st retain objects patterns w
      | Some tp \<Rightarrow>
          (case delete st tp w of
             (Inl x, w') \<Rightarrow> (Inl x, w')
           | (Inr u, w') \<Rightarrow> prune_patterns st retain objects patterns w'))"

definition default_patterns :: "string list" where
  "default_patterns = [''deb'', ''tar.gz'']"

definition prune_bucket :: "store \<Rightarrow> int \<Rightarrow> string list \<Rightarrow> world \<Rightarrow> (error + unit) \<times> world" where
  "prune_bucket st retain patterns w =
     (case list_objects st w of
        (Inl x, w') \<Rightarrow> (Inl x, w')
      | (Inr coll, w') \<Rightarrow>
          (let objects = ordered True coll in
           if objects \<noteq> [] then prune_patterns st retain objects patterns w'
           else (Inr (), w')))"

text \<open>The \<^verbatim>\<open>try\<close> block that ends \<^verbatim>\<open>download\<close>.\<close>

definition download_to :: "store \<Rightarrow> string \<Rightarrow> string \<Rightarrow> world \<Rightarrow> (error + string) \<times> world" where
  "download_to st localpath fname w =
     (let local = os_path_join localpath fname in
      case client_download_file (s_bucket st) fname local w of
        (Inl x, w') \<Rightarrow> (Inl x, w')
      | (Inr u, w') \<Rightarrow> (Inr local, w'))"

definition download ::
  "store \<Rightarrow> string \<Rightarrow> string \<Rightarrow> string option \<Rightarrow> world \<Rightarrow> (error + string) \<times> world" where
  "download st target localpath as_filename w =
     (if target = LATEST then
        (case list_objects st w of
           (Inl x, w') \<Rightarrow> (Inl x, w')
         | (Inr coll, w') \<Rightarrow>
             (case py_last (filenames coll) of
                Inl x \<Rightarrow> (Inl EnvironmentError, w')
              | Inr fname \<Rightarrow> download_to st localpath fname w'))
      else
        (case as_filename of
           None \<Rightarrow> (Inl ValueError, w)
         | Some f \<Rightarrow>
             (if f \<noteq> [] then download_to st localpath f w else (Inl ValueError, w))))"

text \<open>\<^verbatim>\<open>if not target: target = os.path.split(path)[1]\<close>.\<close>

definition upload_target :: "string \<Rightarrow> string option \<Rightarrow> string" where
  "upload_target p target =
     (case target of
        None \<Rightarrow> os_path_basename p
      | Some t \<Rightarrow> if t = [] then os_path_basename p else t)"

definition upload :: "store \<Rightarrow> string \<Rightarrow> string option \<Rightarrow> world \<Rightarrow> (error + unit) \<times> world" where
  "upload st localpath target w =
     (let p = os_path_normpath localpath;
          target' = upload_target p target
      in case client_upload_file p (s_bucket st) (os_path_join (s_path st) target') w of
           (Inl x, w') \<Rightarrow> (Inl x, w')
         | (Inr u, w') \<Rightarrow>
             (case s_retain st of
                None \<Rightarrow> (Inr (), w')
              | Some r \<Rightarrow>
                  (if r \<noteq> 0 then prune_bucket st r default_patterns w'
                   else (Inr (), w'))))"

section \<open>\<^verbatim>\<open>StagingContext\<close>\<close>

record staging_context =
  tmpdir :: string
  isdir' :: bool
  basepath :: string
  targetpath :: string
  target_name :: string

text \<open>\<^verbatim>\<open>_initialize\<close>; \<open>rnd\<close> is the number \<^verbatim>\<open>random.randint(100000000, 999999999)\<close>
  returns.\<close>

definition initialize :: "string \<Rightarrow> int \<Rightarrow> world \<Rightarrow> (error + string) \<times> world" where
  "initialize tmp rnd w =
     (let p = os_path_join tmp (str_int rnd) in
      case os_makedirs p w of
        (Inl x, w') \<Rightarrow> (Inl x, w')
      | (Inr u, w') \<Rightarrow> (Inr p, w'))"

text \<open>\<^verbatim>\<open>__init__\<close>: the attributes that \<^verbatim>\<open>stage\<close> assigns are unset until then; no
  method reads them before \<^verbatim>\<open>stage\<close> has run.\<close>

definition StagingContext ::
  "string \<Rightarrow> int \<Rightarrow> world \<Rightarrow> (error + staging_context) \<times> world" where
  "StagingContext tmp rnd w =
     (case initialize tmp rnd w of
        (Inl x, w') \<Rightarrow> (Inl x, w')
      | (Inr p, w') \<Rightarrow>
          (Inr \<lparr>tmpdir = p, isdir' = False, basepath = [], targetpath = [],
                target_name = []\<rparr>, w'))"

text \<open>\<^verbatim>\<open>__exit__\<close>.\<close>

definition exit_context :: "staging_context \<Rightarrow> world \<Rightarrow> (error + unit) \<times> world" where
  "exit_context ctx w = shutil_rmtree (tmpdir ctx) w"

text \<open>\<^verbatim>\<open>with StagingContext() as stage: body\<close>: \<^verbatim>\<open>__exit__\<close> runs however the body
  ends, and returns nothing, so an exception of the body propagates; an exception of
  \<^verbatim>\<open>__exit__\<close> itself replaces the body's outcome.\<close>

definition with_staging ::
  "int \<Rightarrow> (staging_context \<Rightarrow> world \<Rightarrow> (error + 'a) \<times> world) \<Rightarrow> world
     \<Rightarrow> (error + 'a) \<times> world" where
  "with_staging rnd body w =
     (case StagingContext ''/tmp/'' rnd w of
        (Inl x, w1) \<Rightarrow> (Inl x, w1)
      | (Inr ctx, w1) \<Rightarrow>
          (case body ctx w1 of
             (r, w2) \<Rightarrow>
               (case exit_context ctx w2 of
                  (Inl x, w3) \<Rightarrow> (Inl x, w3)
                | (Inr u, w3) \<Rightarrow> (r, w3))))"

text \<open>The body of the loop over the globbed objects in \<^verbatim>\<open>stage\<close>; the \<^verbatim>\<open>OSError\<close> of
  \<^verbatim>\<open>os.makedirs\<close> is swallowed.\<close>

definition stage_object :: "string \<Rightarrow> string \<Rightarrow> string \<Rightarrow> world \<Rightarrow> (error + unit) \<times> world" where
  "stage_object tpath target obj w =
     (case py_split_last obj target of
        Inl x \<Rightarrow> (Inl x, w)
      | Inr piece \<Rightarrow>
          (let end_path = lstrip_sep piece;
               p = os_path_join tpath end_path
           in if isdir (fs w) obj then copy_tree obj p w
              else (case os_makedirs (os_path_dirname p) w of
                      (r, w') \<Rightarrow> shutil_copy2 obj p w')))"

fun stage_objects ::
  "string \<Rightarrow> string \<Rightarrow> string list \<Rightarrow> world \<Rightarrow> (error + unit) \<times> world" where
  "stage_objects tpath target [] w = (Inr (), w)"
| "stage_objects tpath target (obj # objs) w =
     (case stage_object tpath target obj w of
        (Inl x, w') \<Rightarrow> (Inl x, w')
      | (Inr u, w') \<Rightarrow> stage_objects tpath target objs w')"

definition stage ::
  "staging_context \<Rightarrow> string \<Rightarrow> string list option \<Rightarrow> world
     \<Rightarrow> (error + string \<times> staging_context) \<times> world" where
  "stage ctx target incl w =
     (let isd = isdir (fs w) target in
      if \<not> isd \<and> incl \<noteq> None \<and> incl \<noteq> Some [] then (Inl Exception, w)
      else
        let tn = last (split_on CHR ''/'' (os_path_normpath (target @ ''/'')));
            bp = os_path_join (tmpdir ctx) tn;
            ctx' = ctx\<lparr>isdir' := isd, basepath := bp, targetpath := bp, target_name := tn\<rparr>
        in if isd then
             (let incl' = (case incl of None \<Rightarrow> [''*'']
                           | Some l \<Rightarrow> if l = [] then [''*''] else l);
                  objects = concat (map (\<lambda>i. glob w (fs w) (os_path_join target i)) incl')
              in case stage_objects bp target objects w of
                   (Inl x, w') \<Rightarrow> (Inl x, w')
                 | (Inr u, w') \<Rightarrow> (Inr (bp, ctx'), w'))
           else (case shutil_copy2 target bp w of
                   (Inl x, w') \<Rightarrow> (Inl x, w')
                 | (Inr u, w') \<Rightarrow> (Inr (bp, ctx'), w')))"

definition compress ::
  "staging_context \<Rightarrow> string option \<Rightarrow> world \<Rightarrow> (error + string \<times> staging_context) \<times> world" where
  "compress ctx rename_to w =
     (let tar_name = (case rename_to of
                        None \<Rightarrow> target_name ctx @ ''.tgz''
                      | Some r \<Rightarrow> if r = [] then target_name ctx @ ''.tgz'' else r);
          tar_path = os_path_join (tmpdir ctx) tar_name
      in case tarfile_write tar_path (targetpath ctx) (target_name ctx) w of
           (Inl x, w') \<Rightarrow> (Inl x, w')
         | (Inr u, w') \<Rightarrow>
             (Inr (os_path_join (tmpdir ctx) tar_name,
                   ctx\<lparr>targetpath := os_path_join (tmpdir ctx) tar_name\<rparr>), w'))"

definition path :: "staging_context \<Rightarrow> string" where
  "path ctx = targetpath ctx"

definition name :: "staging_context \<Rightarrow> string" where
  "name ctx = last (split_on CHR ''/'' (os_path_normpath (targetpath ctx @ ''/'')))"

section \<open>\<^verbatim>\<open>BackupHandler\<close>\<close>

text \<open>The decorator \<^verbatim>\<open>processlog\<close> writes to the logger before and after the call and
  re-raises what the call raised; it changes neither the result nor the world modelled
  here, so the decorated methods are modelled by their bodies.\<close>

record handler =
  h_store :: store
  backupdir :: "string option"
  includes' :: "string list option"

text \<open>\<^verbatim>\<open>a or b\<close> on optional strings, and \<^verbatim>\<open>"{}".format(x)\<close>.\<close>

definition py_or :: "string option \<Rightarrow> string option \<Rightarrow> string option" where
  "py_or a b = (case a of None \<Rightarrow> b | Some s \<Rightarrow> if s = [] then b else Some s)"

definition py_format :: "string option \<Rightarrow> string" where
  "py_format x = (case x of None \<Rightarrow> ''None'' | Some s \<Rightarrow> s)"

definition get_dirname :: "world \<Rightarrow> string option \<Rightarrow> string" where
  "get_dirname w p = os_path_dirname (os_path_expanduser w (py_format p @ ''/''))"

definition backup ::
  "handler \<Rightarrow> string option \<Rightarrow> string option \<Rightarrow> int \<Rightarrow> world \<Rightarrow> (error + unit) \<times> world" where
  "backup h backup_target rename_to rnd w =
     (let target = get_dirname w (py_or backup_target (backupdir h)) in
      with_staging rnd
        (\<lambda>ctx0 w1.
           case stage ctx0 target (includes' h) w1 of
             (Inl x, w2) \<Rightarrow> (Inl x, w2)
           | (Inr (bp, ctx1), w2) \<Rightarrow>
               (case compress ctx1 rename_to w2 of
                  (Inl x, w3) \<Rightarrow> (Inl x, w3)
                | (Inr (tp, ctx2), w3) \<Rightarrow>
                    (let final_path = path ctx2 in
                     upload (h_store h) final_path (Some (name ctx2)) w3)))
        w)"

definition prune :: "handler \<Rightarrow> int \<Rightarrow> int \<Rightarrow> world \<Rightarrow> (error + unit) \<times> world" where
  "prune h retain rnd w =
     with_staging rnd (\<lambda>ctx w1. prune_bucket (h_store h) retain default_patterns w1) w"

text \<open>The directory \<^verbatim>\<open>extract\<close> hands to \<^verbatim>\<open>extractall\<close>.\<close>

definition extract_directory :: "(string \<times> node) list \<Rightarrow> string \<Rightarrow> string" where
  "extract_directory t directory =
     (if \<not> isfile t directory then os_path_dirname directory else directory)"

definition extract' :: "string \<Rightarrow> string \<Rightarrow> world \<Rightarrow> (error + unit) \<times> world" where
  "extract' tarpath directory w =
     (let directory' = extract_directory (fs w) directory in
      case tarfile_open tarpath w of
        Inl x \<Rightarrow> (Inl x, w)
      | Inr members \<Rightarrow> extractall members directory' w)"

text \<open>\<^verbatim>\<open>restore\<close>; \<open>tmpname\<close> is the name the temporary file gets. Leaving the
  \<^verbatim>\<open>with\<close> block unlinks the temporary file however the body ends.\<close>

definition restore ::
  "handler \<Rightarrow> string option \<Rightarrow> string \<Rightarrow> world \<Rightarrow> (error + unit) \<times> world" where
  "restore h directory tmpname w =
     (let directory' = get_dirname w (py_or directory (backupdir h)) in
      case NamedTemporaryFile tmpname w of
        (Inl x, w1) \<Rightarrow> (Inl x, w1)
      | (Inr f_name, w1) \<Rightarrow>
          (let dirname = os_path_dirname f_name;
               fname = last (split_on CHR ''/'' f_name)
           in case (case download (h_store h) LATEST dirname (Some fname) w1 of
                      (Inl x, w2) \<Rightarrow> (Inl x, w2)
                    | (Inr local, w2) \<Rightarrow> extract' f_name directory' w2) of
                (r, w3) \<Rightarrow>
                  (case os_unlink f_name w3 of
                     (Inl x, w4) \<Rightarrow> (Inl x, w4)
                   | (Inr u, w4) \<Rightarrow> (r, w4))))"

section \<open>Notions used to state the properties\<close>

text \<open>What \<^verbatim>\<open>list_objects\<close> returns for a bucket holding \<open>objs\<close>: the first
  \<open>max_keys\<close> objects under the store's prefix, in listing order.\<close>

definition listing :: "store \<Rightarrow> s3_object list \<Rightarrow> bucket_object list" where
  "listing st objs =
     map BucketObject (take max_keys (filter (\<lambda>ob. prefix (s_path st) (Key ob)) objs))"

text \<open>The key lists of the \<^verbatim>\<open>delete\<close> calls that the loop of \<^verbatim>\<open>_prune_bucket\<close> issues
  over the patterns, in order, and the set of all keys named in them.\<close>

definition batches :: "int \<Rightarrow> bucket_object list \<Rightarrow> string list \<Rightarrow> string list list" where
  "batches retain objects patterns =
     map filenames (List.map_filter (\<lambda>p. to_prune retain p objects) patterns)"

definition pruned_keys :: "int \<Rightarrow> bucket_object list \<Rightarrow> string list \<Rightarrow> string set" where
  "pruned_keys retain objects patterns = \<Union> (set ` set (batches retain objects patterns))"

text \<open>The path \<open>d\<close> is a directory of the local filesystem.\<close>

definition dir_at :: "string \<Rightarrow> world \<Rightarrow> bool" where
  "dir_at d w = (map_of (fs w) d = Some Dir)"

section \<open>Concrete worlds for the examples\<close>

text \<open>
  One bucket \<^verbatim>\<open>bk\<close>, no failing calls, a server clock at 1000, and a \<^verbatim>\<open>glob\<close> that
  knows the two entries of \<^verbatim>\<open>/srv/data\<close>. The directory \<^verbatim>\<open>/srv/data\<close> holds a file and
  a subdirectory with a file; \<^verbatim>\<open>/srv/empty\<close> is empty.
\<close>

definition ex_obj :: "string \<Rightarrow> int \<Rightarrow> s3_object" where
  "ex_obj k m = \<lparr>Key = k, LastModified = m, ETag = [], Size = 0, Body = Bytes []\<rparr>"

definition ex_glob :: "(string \<times> node) list \<Rightarrow> string \<Rightarrow> string list" where
  "ex_glob t pat =
     (if pat = ''/srv/data/*''
      then filter (\<lambda>p. map_of t p \<noteq> None) [''/srv/data/a.txt'', ''/srv/data/sub'']
      else [])"

definition ex_world :: "s3_object list \<Rightarrow> (string \<times> node) list \<Rightarrow> world" where
  "ex_world objs files =
     \<lparr>fs = files, s3 = (\<lambda>b. if b = ''bk'' then Some objs else None), trace = [],
      faulty = (\<lambda>p. False), clock = 1000,
      etag_of = (\<lambda>c. []), size_of = (\<lambda>c. 0), glob = ex_glob, home = ''/root'',
      pw_dir = (\<lambda>u. None)\<rparr>"

definition ex_store :: store where
  "ex_store = BackupStore ''bk'' None None None"

definition ex_objs3 :: "s3_object list" where
  "ex_objs3 =
     [ex_obj ''a.deb'' 30, ex_obj ''b.tar.gz'' 10, ex_obj ''deb.tar.gz'' 20,
      ex_obj ''notes.txt'' 5]"

definition ex_objs2 :: "s3_object list" where
  "ex_objs2 = [ex_obj ''a.tar.gz'' 200, ex_obj ''b.tar.gz'' 100]"

definition ex_files :: "(string \<times> node) list" where
  "ex_files = [(''/tmp'', Dir), (''/srv'', Dir), (''/srv/data'', Dir),
               (''/srv/data/a.txt'', File (Bytes ''hello'')),
               (''/srv/data/sub'', Dir), (''/srv/data/sub/b.txt'', File (Bytes ''bye'')),
               (''/srv/empty'', Dir)]"


definition ex_handler :: "string \<Rightarrow> string \<Rightarrow> string list option \<Rightarrow> handler" where
  "ex_handler b d incl =
     \<lparr>h_store = BackupStore b None None None, backupdir = Some d, includes' = incl\<rparr>"


section \<open>Basic facts about the model\<close>

lemma log_event_simps [simp]:
  "fs (log_event ev w) = fs w" "s3 (log_event ev w) = s3 w"
  "trace (log_event ev w) = trace w @ [ev]" "faulty (log_event ev w) = faulty w"
  "clock (log_event ev w) = clock w" "glob (log_event ev w) = glob w"
  "home (log_event ev w) = home w" "pw_dir (log_event ev w) = pw_dir w"
  by (simp_all add: log_event_def)

lemma py_sorted_mset [simp]: "mset (py_sorted k d xs) = mset xs"
  by (simp add: py_sorted_def)

lemma py_sorted_filter: "filter P (py_sorted k d xs) = py_sorted k d (filter P xs)"
  by (simp add: py_sorted_def filter_sort flip: rev_filter)

lemma py_sorted_set [simp]: "set (py_sorted k d xs) = set xs"
  by (simp add: py_sorted_def)

lemma py_sorted_length [simp]: "length (py_sorted k d xs) = length xs"
  by (simp add: py_sorted_def)

lemma py_sorted_desc: "sorted (rev (map k (py_sorted k True xs)))"
  by (simp add: py_sorted_def rev_map)

lemma py_sorted_stable:
  "filter (\<lambda>y. k y = v) (py_sorted k d xs) = filter (\<lambda>y. k y = v) xs"
  by (simp add: py_sorted_def sort_key_stable flip: rev_filter)

lemma py_sorted_Nil [simp]: "py_sorted k d xs = [] \<longleftrightarrow> xs = []"
  by (metis length_0_conv py_sorted_length)

lemma client_delete_objects_cases:
  "client_delete_objects keys b w =
     (if faulty w PDeleteObjects \<or> keys = [] \<or> max_keys < length keys \<or> s3 w b = None
      then (Inl ClientError, log_event (DeleteObjects b keys) w)
      else (Inr (), (log_event (DeleteObjects b keys) w)
             \<lparr>s3 := (s3 w)(b \<mapsto> filter (\<lambda>ob. Key ob \<notin> set keys) (the (s3 w b)))\<rparr>))"
  by (auto simp: client_delete_objects_def Let_def split: option.splits)

lemma batches_Nil [simp]: "batches retain objects [] = []"
  by (simp add: batches_def map_filter_simps)

lemma batches_Cons:
  "batches retain objects (p # ps) =
     (case to_prune retain p objects of
        None \<Rightarrow> batches retain objects ps
      | Some tp \<Rightarrow> filenames tp # batches retain objects ps)"
  by (simp add: batches_def map_filter_simps split: option.splits)

lemma pruned_keys_Nil [simp]: "pruned_keys retain objects [] = {}"
  by (simp add: pruned_keys_def)

lemma pruned_keys_Cons:
  "pruned_keys retain objects (p # ps) =
     (case to_prune retain p objects of
        None \<Rightarrow> pruned_keys retain objects ps
      | Some tp \<Rightarrow> set (filenames tp) \<union> pruned_keys retain objects ps)"
  by (simp add: pruned_keys_def batches_Cons split: option.splits)

lemma delete_cases:
  "delete st tp w =
     (if faulty w PDeleteObjects \<or> filenames tp = [] \<or> max_keys < length (filenames tp)
         \<or> s3 w (s_bucket st) = None
      then (Inl ClientError, log_event (DeleteObjects (s_bucket st) (filenames tp)) w)
      else (Inr (), (log_event (DeleteObjects (s_bucket st) (filenames tp)) w)
             \<lparr>s3 := (s3 w)(s_bucket st \<mapsto>
                 filter (\<lambda>ob. Key ob \<notin> set (filenames tp)) (the (s3 w (s_bucket st))))\<rparr>))"
  by (simp add: delete_def client_delete_objects_cases)

lemma prune_patterns_frame:
  "prune_patterns st retain objects ps w = (r, w') \<Longrightarrow>
     fs w' = fs w \<and> faulty w' = faulty w \<and> clock w' = clock w"
proof (induction ps arbitrary: w)
  case Nil
  then show ?case by simp
next
  case (Cons p ps)
  show ?case
  proof (cases "to_prune retain p objects")
    case None
    with Cons show ?thesis by simp
  next
    case (Some tp)
    show ?thesis
    proof (cases "faulty w PDeleteObjects \<or> filenames tp = [] \<or> max_keys < length (filenames tp)
         \<or> s3 w (s_bucket st) = None")
      case True
      with Cons.prems Some show ?thesis by (auto simp: delete_cases)
    next
      case False
      with Cons.prems Some have
        "prune_patterns st retain objects ps
           ((log_event (DeleteObjects (s_bucket st) (filenames tp)) w)
             \<lparr>s3 := (s3 w)(s_bucket st \<mapsto>
                 filter (\<lambda>ob. Key ob \<notin> set (filenames tp)) (the (s3 w (s_bucket st))))\<rparr>) = (r, w')"
        by (simp add: delete_cases)
      from Cons.IH [OF this] show ?thesis by simp
    qed
  qed
qed

lemma prune_patterns_Inr:
  "prune_patterns st retain objects ps w = (Inr u, w') \<Longrightarrow> s3 w (s_bucket st) = Some objs \<Longrightarrow>
     s3 w' = (s3 w)(s_bucket st \<mapsto>
               filter (\<lambda>ob. Key ob \<notin> pruned_keys retain objects ps) objs)
     \<and> trace w' = trace w @ map (DeleteObjects (s_bucket st)) (batches retain objects ps)"
proof (induction ps arbitrary: w objs)
  case Nil
  then show ?case by auto
next
  case (Cons p ps)
  show ?case
  proof (cases "to_prune retain p objects")
    case None
    with Cons show ?thesis by (simp add: batches_Cons pruned_keys_Cons)
  next
    case (Some tp)
    let ?w1 = "(log_event (DeleteObjects (s_bucket st) (filenames tp)) w)
             \<lparr>s3 := (s3 w)(s_bucket st \<mapsto> filter (\<lambda>ob. Key ob \<notin> set (filenames tp)) objs)\<rparr>"
    from Cons.prems Some have nf: "\<not> (faulty w PDeleteObjects \<or> filenames tp = []
         \<or> max_keys < length (filenames tp))"
      by (auto simp: delete_cases split: if_splits)
    with Cons.prems Some have run: "prune_patterns st retain objects ps ?w1 = (Inr u, w')"
      by (simp add: delete_cases)
    have "s3 ?w1 (s_bucket st) = Some (filter (\<lambda>ob. Key ob \<notin> set (filenames tp)) objs)"
      by simp
    from Cons.IH [OF run this] show ?thesis
      using Some by (auto simp: batches_Cons pruned_keys_Cons fun_eq_iff)
  qed
qed

lemma prune_patterns_any:
  "prune_patterns st retain objects ps w = (r, w') \<Longrightarrow>
     (\<exists>K bs. K \<subseteq> pruned_keys retain objects ps \<and> set bs \<subseteq> set (batches retain objects ps)
        \<and> s3 w' (s_bucket st) = map_option (filter (\<lambda>ob. Key ob \<notin> K)) (s3 w (s_bucket st))
        \<and> trace w' = trace w @ map (DeleteObjects (s_bucket st)) bs)"
proof (induction ps arbitrary: w)
  case Nil
  then have "w' = w" by simp
  show ?case
    apply (rule exI [of _ "{}"], rule exI [of _ "[]"])
    by (cases "s3 w (s_bucket st)") (simp_all add: \<open>w' = w\<close>)
next
  case (Cons p ps)
  show ?case
  proof (cases "to_prune retain p objects")
    case None
    with Cons show ?thesis by (simp add: batches_Cons pruned_keys_Cons)
  next
    case (Some tp)
    show ?thesis
    proof (cases "faulty w PDeleteObjects \<or> filenames tp = [] \<or> max_keys < length (filenames tp)
         \<or> s3 w (s_bucket st) = None")
      case True
      with Cons.prems Some have w': "w' = log_event (DeleteObjects (s_bucket st) (filenames tp)) w"
        by (auto simp: delete_cases)
      show ?thesis
        apply (rule exI [of _ "{}"], rule exI [of _ "[filenames tp]"])
        using Some by (cases "s3 w (s_bucket st)") (simp_all add: w' batches_Cons)
    next
      case False
      let ?w1 = "(log_event (DeleteObjects (s_bucket st) (filenames tp)) w)
             \<lparr>s3 := (s3 w)(s_bucket st \<mapsto>
                 filter (\<lambda>ob. Key ob \<notin> set (filenames tp)) (the (s3 w (s_bucket st))))\<rparr>"
      from False Cons.prems Some have run: "prune_patterns st retain objects ps ?w1 = (r, w')"
        by (auto simp: delete_cases)
      from Cons.IH [OF run] obtain K bs where
        K: "K \<subseteq> pruned_keys retain objects ps" and bs: "set bs \<subseteq> set (batches retain objects ps)"
        and s: "s3 w' (s_bucket st) = map_option (filter (\<lambda>ob. Key ob \<notin> K)) (s3 ?w1 (s_bucket st))"
        and t: "trace w' = trace ?w1 @ map (DeleteObjects (s_bucket st)) bs"
        by blast
      show ?thesis
        apply (rule exI [of _ "set (filenames tp) \<union> K"], rule exI [of _ "filenames tp # bs"])
        using Some K bs s t False
        by (auto simp: batches_Cons pruned_keys_Cons intro: filter_cong)
    qed
  qed
qed

lemma filename_BucketObject [simp]: "filename (BucketObject ob) = Key ob"
  by (simp add: BucketObject_def)

lemma modified_BucketObject [simp]: "modified (BucketObject ob) = LastModified ob"
  by (simp add: BucketObject_def)

lemma list_objects_cases:
  "list_objects st w =
     (if faulty w PListObjects \<or> s3 w (s_bucket st) = None
      then (Inl ClientError, log_event (ListObjects (s_bucket st) (s_path st)) w)
      else if listing st (the (s3 w (s_bucket st))) = []
      then (Inl KeyError, log_event (ListObjects (s_bucket st) (s_path st)) w)
      else (Inr (listing st (the (s3 w (s_bucket st)))),
            log_event (ListObjects (s_bucket st) (s_path st)) w))"
  by (auto simp: list_objects_def client_list_objects_def listing_def Let_def
           split: option.splits)

lemma list_objects_Inr:
  "list_objects st w = (Inr L, w') \<Longrightarrow>
     \<exists>objs. s3 w (s_bucket st) = Some objs \<and> \<not> faulty w PListObjects \<and> L = listing st objs
       \<and> L \<noteq> []
       \<and> w' = log_event (ListObjects (s_bucket st) (s_path st)) w"
  by (auto simp: list_objects_cases split: if_splits)

lemma set_py_slice_from: "set (py_slice_from i xs) \<subseteq> set xs"
  by (auto simp: py_slice_from_def dest: in_set_dropD)

lemma to_prune_matches:
  "to_prune retain p objects = Some tp \<Longrightarrow> x \<in> set tp \<Longrightarrow>
     x \<in> set objects \<and> py_contains p (filename x)"
  using set_py_slice_from [of retain "objects_by_pattern p objects"]
  by (auto simp: to_prune_def objects_by_pattern_def split: if_splits)

lemma pruned_keys_matches:
  "k \<in> pruned_keys retain objects ps \<Longrightarrow>
     \<exists>x \<in> set objects. filename x = k \<and> (\<exists>p \<in> set ps. py_contains p k)"
proof (induction ps)
  case Nil
  then show ?case by simp
next
  case (Cons p ps)
  then show ?case
    by (auto simp: pruned_keys_Cons filenames_def split: option.splits dest: to_prune_matches)
qed


lemma batches_member:
  "p \<in> set ps \<Longrightarrow> to_prune retain p objects = Some tp \<Longrightarrow>
     filenames tp \<in> set (batches retain objects ps)"
  by (induction ps) (auto simp: batches_Cons split: option.splits)

lemma batches_matches:
  "ks \<in> set (batches retain objects ps) \<Longrightarrow>
     \<exists>p \<in> set ps. \<exists>tp. to_prune retain p objects = Some tp \<and> ks = filenames tp"
  by (induction ps) (auto simp: batches_Cons split: option.splits)


lemma prune_bucket_Inr:
  assumes "prune_bucket st retain ps w = (Inr u, w')"
  shows "\<exists>objs. s3 w (s_bucket st) = Some objs \<and> \<not> faulty w PListObjects
     \<and> s3 w' = (s3 w)(s_bucket st \<mapsto>
          filter (\<lambda>ob. Key ob \<notin> pruned_keys retain (ordered True (listing st objs)) ps) objs)
     \<and> trace w' = trace w @ ListObjects (s_bucket st) (s_path st) #
          (if listing st objs = [] then []
           else map (DeleteObjects (s_bucket st)) (batches retain (ordered True (listing st objs)) ps))
     \<and> fs w' = fs w \<and> faulty w' = faulty w"
proof -
  obtain r0 w0 where lo: "list_objects st w = (r0, w0)" by (cases "list_objects st w")
  with assms obtain L where r0: "r0 = Inr L"
    by (cases r0) (auto simp: prune_bucket_def)
  from list_objects_Inr [OF lo [unfolded r0]] obtain objs where
    objs: "s3 w (s_bucket st) = Some objs" and nf: "\<not> faulty w PListObjects"
    and L: "L = listing st objs"
    and w0: "w0 = log_event (ListObjects (s_bucket st) (s_path st)) w"
    by blast
  show ?thesis
  proof (cases "L = []")
    case True
    have "pruned_keys retain (ordered True []) ps = {}"
      using pruned_keys_matches [of _ retain "ordered True []" ps]
      by (auto simp: ordered_def)
    with True assms lo r0 objs nf L w0 show ?thesis
      by (auto simp: prune_bucket_def ordered_def)
  next
    case False
    with assms lo r0 have run: "prune_patterns st retain (ordered True L) ps w0 = (Inr u, w')"
      by (simp add: prune_bucket_def ordered_def)
    have "s3 w0 (s_bucket st) = Some objs" by (simp add: w0 objs)
    from prune_patterns_Inr [OF run this] prune_patterns_frame [OF run] False objs nf
    show ?thesis by (simp add: w0 L)
  qed
qed







lemma prune_bucket_any:
  assumes "prune_bucket st retain ps w = (r, w')"
  shows "\<exists>K bs. (\<forall>k \<in> K. \<exists>p \<in> set ps. py_contains p k)
     \<and> (\<forall>ks \<in> set bs. \<forall>k \<in> set ks. \<exists>p \<in> set ps. py_contains p k)
     \<and> s3 w' (s_bucket st) = map_option (filter (\<lambda>ob. Key ob \<notin> K)) (s3 w (s_bucket st))
     \<and> trace w' = trace w @ ListObjects (s_bucket st) (s_path st) # map (DeleteObjects (s_bucket st)) bs"
proof -
  obtain r0 w0 where lo: "list_objects st w = (r0, w0)" by (cases "list_objects st w")
  have w0: "w0 = log_event (ListObjects (s_bucket st) (s_path st)) w"
    using lo by (auto simp: list_objects_cases split: if_splits)
  have triv: ?thesis if "w' = w0"
    apply (rule exI [of _ "{}"], rule exI [of _ "[]"])
    by (cases "s3 w (s_bucket st)") (simp_all add: that w0)
  show ?thesis
  proof (cases r0)
    case (Inl e)
    with assms lo have "w' = w0" by (simp add: prune_bucket_def)
    then show ?thesis by (rule triv)
  next
    case (Inr L)
    show ?thesis
    proof (cases "ordered True L = []")
      case True
      with assms lo Inr have "w' = w0" by (simp add: prune_bucket_def)
      then show ?thesis by (rule triv)
    next
      case False
      with assms lo Inr have run: "prune_patterns st retain (ordered True L) ps w0 = (r, w')"
        by (simp add: prune_bucket_def)
      from prune_patterns_any [OF run] obtain K bs where
        K: "K \<subseteq> pruned_keys retain (ordered True L) ps"
        and bs: "set bs \<subseteq> set (batches retain (ordered True L) ps)"
        and s: "s3 w' (s_bucket st) = map_option (filter (\<lambda>ob. Key ob \<notin> K)) (s3 w0 (s_bucket st))"
        and t: "trace w' = trace w0 @ map (DeleteObjects (s_bucket st)) bs"
        by blast
      have K': "\<forall>k \<in> K. \<exists>p \<in> set ps. py_contains p k"
        using K pruned_keys_matches by blast
      have bs': "\<forall>ks \<in> set bs. \<forall>k \<in> set ks. \<exists>p \<in> set ps. py_contains p k"
      proof (intro ballI)
        fix ks k assume "ks \<in> set bs" "k \<in> set ks"
        with bs have "k \<in> pruned_keys retain (ordered True L) ps"
          by (auto simp: pruned_keys_def)
        then show "\<exists>p \<in> set ps. py_contains p k" using pruned_keys_matches by blast
      qed
      show ?thesis
        apply (rule exI [of _ K], rule exI [of _ bs])
        using K' bs' s t by (simp add: w0)
    qed
  qed
qed


lemma pruned_keys_iff:
  "k \<in> pruned_keys retain objects ps \<longleftrightarrow>
     (\<exists>q \<in> set ps. \<exists>tp. to_prune retain q objects = Some tp \<and> k \<in> set (filenames tp))"
  by (induction ps) (auto simp: pruned_keys_Cons split: option.splits)

lemma ordered_objects_by_pattern:
  "objects_by_pattern p (ordered d xs) = ordered d (objects_by_pattern p xs)"
  by (simp add: objects_by_pattern_def ordered_def py_sorted_filter)

section \<open>Runs of \<^verbatim>\<open>_prune_bucket\<close> that return normally\<close>

lemma list_objects_nonempty: "list_objects st w = (Inr L, w1) \<Longrightarrow> L \<noteq> []"
  by (auto dest: list_objects_Inr)







section \<open>Directories persist through the steps of staging\<close>

lemma seq_dir_at:
  assumes "dir_at d (snd fw)"
    and "\<And>u w'. dir_at d w' \<Longrightarrow> dir_at d (snd (g u w'))"
  shows "dir_at d (snd (case fw of (Inl x, w') \<Rightarrow> (Inl x, w') | (Inr u, w') \<Rightarrow> g u w'))"
  using assms by (cases fw; cases "fst fw") auto

lemma dir_at_log_event [simp]: "dir_at d (log_event ev w) = dir_at d w"
  by (simp add: dir_at_def)

lemma map_of_mk_dirs:
  "map_of (mk_dirs ds t) p = (if map_of t p = None \<and> p \<in> set ds then Some Dir else map_of t p)"
proof (induction ds arbitrary: t)
  case Nil
  then show ?case by simp
next
  case (Cons a ds)
  show ?case
    by (simp add: Cons.IH map_add_def split: option.splits)
qed

lemma os_makedirs_dir_at: "dir_at d w \<Longrightarrow> dir_at d (snd (os_makedirs p w))"
  by (simp add: os_makedirs_def Let_def dir_at_def map_of_mk_dirs)

lemma ensure_dir_dir_at: "dir_at d w \<Longrightarrow> dir_at d (snd (ensure_dir err p w))"
  by (simp add: ensure_dir_def Let_def dir_at_def map_of_mk_dirs)

lemma write_file_dir_at: "dir_at d w \<Longrightarrow> dir_at d (snd (write_file err p c w))"
  by (auto simp: write_file_def Let_def dir_at_def update_conv' isdir_def)

lemma copy_file_dir_at: "dir_at d w \<Longrightarrow> dir_at d (snd (copy_file err src dst w))"
  by (auto simp: copy_file_def Let_def write_file_dir_at split: option.splits node.splits)

lemma copy_entries_dir_at: "dir_at d w \<Longrightarrow> dir_at d (snd (copy_entries src dst es w))"
proof (induction es arbitrary: w)
  case Nil
  then show ?case by simp
next
  case (Cons e es)
  have step: "dir_at d (snd (case snd e of
              Dir \<Rightarrow> ensure_dir DistutilsFileError (dst @ drop (length src) (fst e)) w
            | File c \<Rightarrow>
                (case ensure_dir DistutilsFileError
                        (os_path_dirname (dst @ drop (length src) (fst e))) w of
                   (Inl x, w') \<Rightarrow> (Inl x, w')
                 | (Inr u, w') \<Rightarrow>
                     copy_file DistutilsFileError (fst e) (dst @ drop (length src) (fst e)) w')))"
  proof (cases "snd e")
    case Dir
    then show ?thesis by (simp add: ensure_dir_dir_at Cons.prems)
  next
    case (File c)
    then show ?thesis
      by (simp add: seq_dir_at ensure_dir_dir_at copy_file_dir_at Cons.prems)
  qed
  show ?case
    unfolding copy_entries.simps Let_def
    by (rule seq_dir_at [OF step]) (rule Cons.IH)
qed

lemma copy_tree_dir_at: "dir_at d w \<Longrightarrow> dir_at d (snd (copy_tree src dst w))"
  by (simp add: copy_tree_def seq_dir_at ensure_dir_dir_at copy_entries_dir_at)

lemma stage_object_dir_at: "dir_at d w \<Longrightarrow> dir_at d (snd (stage_object tp target obj w))"
  by (auto simp: stage_object_def Let_def shutil_copy2_def copy_tree_dir_at copy_file_dir_at
        os_makedirs_dir_at split: sum.splits prod.splits)
    (metis copy_file_dir_at os_makedirs_dir_at snd_conv)

lemma stage_objects_dir_at: "dir_at d w \<Longrightarrow> dir_at d (snd (stage_objects tp target objs w))"
proof (induction objs arbitrary: w)
  case Nil
  then show ?case by simp
next
  case (Cons obj objs)
  show ?case
    unfolding stage_objects.simps
    by (rule seq_dir_at [OF stage_object_dir_at [OF Cons.prems]]) (rule Cons.IH)
qed

lemma seq_dir_at_val:
  assumes "dir_at d (snd fw)"
  shows "dir_at d (snd (case fw of (Inl x, w') \<Rightarrow> (Inl x, w') | (Inr u, w') \<Rightarrow> (Inr (h u), w')))"
  using assms by (cases fw; cases "fst fw") auto

lemma stage_dir_at: "dir_at d w \<Longrightarrow> dir_at d (snd (stage ctx target incl w))"
  by (simp add: stage_def Let_def seq_dir_at_val stage_objects_dir_at shutil_copy2_def
        copy_file_dir_at)

lemma tarfile_write_dir_at:
  assumes "dir_at d w"
  shows "dir_at d (snd (tarfile_write tar_path tp arc w))"
proof (cases "faulty w PTarWrite")
  case True
  with assms show ?thesis by (simp add: tarfile_write_def)
next
  case False
  show ?thesis
  proof (cases "isdir (fs w) tar_path \<or> \<not> parent_is_dir (fs w) tar_path")
    case True
    with False assms show ?thesis by (auto simp: tarfile_write_def write_file_def Let_def)
  next
    case ok: False
    then have "tar_path \<noteq> d" using assms by (auto simp: dir_at_def isdir_def)
    with False ok assms show ?thesis
      by (auto simp: tarfile_write_def write_file_def Let_def dir_at_def update_conv')
  qed
qed

lemma compress_dir_at: "dir_at d w \<Longrightarrow> dir_at d (snd (compress ctx rename_to w))"
  by (simp add: compress_def Let_def seq_dir_at_val tarfile_write_dir_at)

lemma client_upload_file_fs [simp]: "fs (snd (client_upload_file p b k w)) = fs w"
  by (auto simp: client_upload_file_def Let_def split: option.splits node.splits)

lemma list_objects_fs [simp]: "fs (snd (list_objects st w)) = fs w"
  by (simp add: list_objects_cases)

lemma prune_bucket_fs [simp]: "fs (snd (prune_bucket st retain ps w)) = fs w"
proof -
  have "fs (snd (prune_patterns st retain objs ps w')) = fs w'" for objs w'
    using prune_patterns_frame [of st retain objs ps w'] by (metis prod.collapse)
  then show ?thesis
    by (auto simp: prune_bucket_def Let_def list_objects_cases)
qed

lemma upload_fs [simp]: "fs (snd (upload st lp tgt w)) = fs w"
proof -
  obtain r w1 where c: "client_upload_file (os_path_normpath lp) (s_bucket st)
      (os_path_join (s_path st) (upload_target (os_path_normpath lp) tgt)) w = (r, w1)"
    by (cases "client_upload_file (os_path_normpath lp) (s_bucket st)
      (os_path_join (s_path st) (upload_target (os_path_normpath lp) tgt)) w")
  then have "fs w1 = fs w" by (metis client_upload_file_fs snd_conv)
  with c show ?thesis
    by (cases r) (auto simp: upload_def Let_def split: option.splits)
qed

lemma upload_dir_at: "dir_at d w \<Longrightarrow> dir_at d (snd (upload st lp tgt w))"
  by (simp add: dir_at_def)

section \<open>The staging workspace\<close>

lemma slash_not_digit: "0 \<le> k \<Longrightarrow> k < 10 \<Longrightarrow> char_of (48 + k :: int) \<noteq> CHR ''/''"
proof
  assume k: "0 \<le> k" "k < 10" and "char_of (48 + k) = CHR ''/''"
  then have "of_char (char_of (48 + k) :: char) = (of_char CHR ''/'' :: int)" by simp
  with k show False by simp
qed

lemma str_int_no_slash: "CHR ''/'' \<notin> set (str_int n)"
proof (induction n rule: str_int.induct)
  case (1 n)
  show ?case
  proof (cases "n < 0")
    case True
    with 1 show ?thesis by (subst str_int.simps) auto
  next
    case nn: False
    show ?thesis
    proof (cases "n < 10")
      case True
      with nn show ?thesis using slash_not_digit [of n] by (subst str_int.simps) auto
    next
      case False
      have "0 \<le> n mod 10" "n mod 10 < 10" by simp_all
      from slash_not_digit [OF this] 1 nn False show ?thesis
        by (subst str_int.simps) auto
    qed
  qed
qed

lemma ancestors_tmp:
  assumes "CHR ''/'' \<notin> set ds"
  shows "ancestors (''/tmp/'' @ ds) = [''/tmp'']"
proof -
  have len: "length (''/tmp/'' @ ds) = 5 + length ds" by simp
  have a: "[1..<5 + length ds] = [1..<5] @ [5..<5 + length ds]"
    by (rule upt_add_eq_append) simp
  have b: "[1..<5] = [1, 2, 3, 4::nat]" by code_simp
  have c: "filter (\<lambda>i. (''/tmp/'' @ ds) ! i = CHR ''/'') [5..<5 + length ds] = []"
  proof -
    have "(''/tmp/'' @ ds) ! i \<noteq> CHR ''/''" if "5 \<le> i" "i < 5 + length ds" for i
    proof -
      from that have "i - 5 < length ds" by simp
      then have "ds ! (i - 5) \<in> set ds" by (rule nth_mem)
      moreover from that have "(''/tmp/'' @ ds) ! i = ds ! (i - 5)"
        by (simp add: nth_append numeral_eq_Suc)
      ultimately show ?thesis using assms by metis
    qed
    then show ?thesis by (simp add: filter_empty_conv)
  qed
  show ?thesis
    unfolding ancestors_def len a filter_append c b by simp
qed

lemma workspace_path: "os_path_join ''/tmp/'' (str_int rnd) = ''/tmp/'' @ str_int rnd"
proof -
  have "\<not> prefix ''/'' (str_int rnd)"
    using str_int_no_slash [of rnd] by (cases "str_int rnd") auto
  then show ?thesis by (simp add: os_path_join_def)
qed

lemma StagingContext_Inr:
  assumes "StagingContext tmp rnd w = (Inr ctx, w1)"
  shows "tmpdir ctx = os_path_join tmp (str_int rnd) \<and> dir_at (tmpdir ctx) w1
     \<and> map_of (fs w) (tmpdir ctx) = None
     \<and> w1 = (log_event (Makedirs (tmpdir ctx)) w)
              \<lparr>fs := mk_dirs (ancestors (tmpdir ctx) @ [tmpdir ctx]) (fs w)\<rparr>"
  using assms
  by (auto simp: StagingContext_def initialize_def os_makedirs_def Let_def dir_at_def
        map_of_mk_dirs split: if_splits)

lemma StagingContext_Inl:
  assumes "StagingContext tmp rnd w = (Inl x, w1)"
  shows "x = OSError \<and> w1 = log_event (Makedirs (os_path_join tmp (str_int rnd))) w"
  using assms
  by (auto simp: StagingContext_def initialize_def os_makedirs_def Let_def split: if_splits)

lemma with_staging_run:
  assumes sc: "StagingContext ''/tmp/'' rnd w = (Inr ctx, w1)"
    and keeps: "\<And>v. dir_at (tmpdir ctx) v \<Longrightarrow> dir_at (tmpdir ctx) (snd (body ctx v))"
  shows "with_staging rnd body w =
     (fst (body ctx w1),
      (log_event (Rmtree (tmpdir ctx)) (snd (body ctx w1)))
        \<lparr>fs := filter (\<lambda>e. \<not> under (tmpdir ctx) (fst e)) (fs (snd (body ctx w1)))\<rparr>)"
proof -
  from StagingContext_Inr [OF sc] have "dir_at (tmpdir ctx) w1" by blast
  from keeps [OF this] have d: "map_of (fs (snd (body ctx w1))) (tmpdir ctx) = Some Dir"
    by (simp add: dir_at_def)
  show ?thesis
    by (cases "body ctx w1")
      (use d in \<open>simp add: with_staging_def sc exit_context_def shutil_rmtree_def Let_def\<close>)
qed

lemma backup_body_dir_at:
  assumes "dir_at d v"
  shows "dir_at d (snd (case stage ctx0 target incl v of
             (Inl x, w2) \<Rightarrow> (Inl x, w2)
           | (Inr (bp, ctx1), w2) \<Rightarrow>
               (case compress ctx1 rename_to w2 of
                  (Inl x, w3) \<Rightarrow> (Inl x, w3)
                | (Inr (tp, ctx2), w3) \<Rightarrow>
                    (let final_path = path ctx2 in
                     upload st final_path (Some (name ctx2)) w3))))"
proof -
  obtain r2 w2 where s: "stage ctx0 target incl v = (r2, w2)" by (cases "stage ctx0 target incl v")
  with stage_dir_at [OF assms, of ctx0 target incl] have d2: "dir_at d w2" by simp
  show ?thesis
  proof (cases r2)
    case (Inl x)
    with s d2 show ?thesis by simp
  next
    case (Inr pr)
    obtain bp ctx1 where pr: "pr = (bp, ctx1)" by (cases pr)
    obtain r3 w3 where c: "compress ctx1 rename_to w2 = (r3, w3)"
      by (cases "compress ctx1 rename_to w2")
    with compress_dir_at [OF d2, of ctx1 rename_to] have d3: "dir_at d w3" by simp
    show ?thesis
    proof (cases r3)
      case (Inl x)
      with s Inr pr c d3 show ?thesis by simp
    next
      case r3: (Inr pr2)
      obtain tp ctx2 where pr2: "pr2 = (tp, ctx2)" by (cases pr2)
      from s Inr pr c r3 pr2 upload_dir_at [OF d3] show ?thesis by (simp add: Let_def)
    qed
  qed
qed

lemma map_of_filter_under:
  "map_of (filter (\<lambda>e. \<not> under d (fst e)) t) d = None"
  by (induction t) (auto simp: under_def)

section \<open>Pruning does not depend on the local state\<close>

lemma prune_patterns_indep:
  assumes "s3 v = s3 w" and "faulty v = faulty w"
  shows "fst (prune_patterns st r objs ps v) = fst (prune_patterns st r objs ps w)
     \<and> s3 (snd (prune_patterns st r objs ps v)) = s3 (snd (prune_patterns st r objs ps w))
     \<and> (\<exists>evs. trace (snd (prune_patterns st r objs ps v)) = trace v @ evs
             \<and> trace (snd (prune_patterns st r objs ps w)) = trace w @ evs)"
  using assms
proof (induction ps arbitrary: v w)
  case Nil
  then show ?case by simp
next
  case (Cons p ps)
  show ?case
  proof (cases "to_prune r p objs")
    case None
    with Cons.IH [OF Cons.prems] show ?thesis by simp
  next
    case (Some tp)
    show ?thesis
    proof (cases "faulty w PDeleteObjects \<or> filenames tp = [] \<or> max_keys < length (filenames tp)
         \<or> s3 w (s_bucket st) = None")
      case True
      with Some Cons.prems show ?thesis by (auto simp: delete_cases)
    next
      case False
      let ?ev = "DeleteObjects (s_bucket st) (filenames tp)"
      let ?f = "\<lambda>u. (log_event ?ev u)\<lparr>s3 := (s3 u)(s_bucket st \<mapsto>
                 filter (\<lambda>ob. Key ob \<notin> set (filenames tp)) (the (s3 u (s_bucket st))))\<rparr>"
      have a: "s3 (?f v) = s3 (?f w)" "faulty (?f v) = faulty (?f w)"
        using Cons.prems by simp_all
      from Cons.IH [OF a] obtain evs where
        1: "fst (prune_patterns st r objs ps (?f v)) = fst (prune_patterns st r objs ps (?f w))"
        and 2: "s3 (snd (prune_patterns st r objs ps (?f v))) = s3 (snd (prune_patterns st r objs ps (?f w)))"
        and 3: "trace (snd (prune_patterns st r objs ps (?f v))) = trace (?f v) @ evs"
        and 4: "trace (snd (prune_patterns st r objs ps (?f w))) = trace (?f w) @ evs"
        by blast
      have ev: "prune_patterns st r objs (p # ps) u = prune_patterns st r objs ps (?f u)"
        if "s3 u = s3 w" "faulty u = faulty w" for u
        using that False Some by (auto simp: delete_cases)
      show ?thesis
        unfolding ev [OF Cons.prems] ev [OF refl refl]
        using 1 2 3 4 by (intro conjI exI [of _ "?ev # evs"]) simp_all
    qed
  qed
qed

lemma prune_bucket_indep:
  assumes "s3 v = s3 w" and "faulty v = faulty w"
  shows "fst (prune_bucket st r ps v) = fst (prune_bucket st r ps w)
     \<and> s3 (snd (prune_bucket st r ps v)) = s3 (snd (prune_bucket st r ps w))
     \<and> drop (length (trace v)) (trace (snd (prune_bucket st r ps v)))
         = drop (length (trace w)) (trace (snd (prune_bucket st r ps w)))"
proof -
  let ?ev = "ListObjects (s_bucket st) (s_path st)"
  let ?L = "ordered True (listing st (the (s3 w (s_bucket st))))"
  have a: "s3 (log_event ?ev v) = s3 (log_event ?ev w)"
    "faulty (log_event ?ev v) = faulty (log_event ?ev w)"
    using assms by simp_all
  from prune_patterns_indep [OF a, of st r ?L ps] obtain evs where
    1: "fst (prune_patterns st r ?L ps (log_event ?ev v)) = fst (prune_patterns st r ?L ps (log_event ?ev w))"
    and 2: "s3 (snd (prune_patterns st r ?L ps (log_event ?ev v))) = s3 (snd (prune_patterns st r ?L ps (log_event ?ev w)))"
    and 3: "trace (snd (prune_patterns st r ?L ps (log_event ?ev v))) = trace (log_event ?ev v) @ evs"
    and 4: "trace (snd (prune_patterns st r ?L ps (log_event ?ev w))) = trace (log_event ?ev w) @ evs"
    by blast
  show ?thesis
    using assms 1 2 3 4
    by (simp add: prune_bucket_def list_objects_cases Let_def)
qed

section \<open>Creating the workspace under \<^verbatim>\<open>/tmp\<close>\<close>

lemma StagingContext_tmp:
  assumes none: "map_of (fs w) (''/tmp/'' @ str_int rnd) = None"
    and nf: "\<not> isfile (fs w) ''/tmp''"
  shows "StagingContext ''/tmp/'' rnd w =
     (Inr \<lparr>tmpdir = ''/tmp/'' @ str_int rnd, isdir' = False, basepath = [], targetpath = [],
           target_name = []\<rparr>,
      (log_event (Makedirs (''/tmp/'' @ str_int rnd)) w)
        \<lparr>fs := (if map_of (fs w) ''/tmp'' = None then fs w @ [(''/tmp'', Dir)] else fs w)
                 @ [(''/tmp/'' @ str_int rnd, Dir)]\<rparr>)"
proof -
  let ?ws = "''/tmp/'' @ str_int rnd"
  let ?t1 = "if map_of (fs w) ''/tmp'' = None then fs w @ [(''/tmp'', Dir)] else fs w"
  have anc: "ancestors ?ws = [''/tmp'']" by (rule ancestors_tmp [OF str_int_no_slash])
  have ne: "?ws \<noteq> ''/''" by simp
  have neq: "?ws \<noteq> ''/tmp''" by simp
  have none1: "map_of ?t1 ?ws = None" using none neq by (simp add: map_add_def)
  have mk: "mk_dirs (ancestors ?ws @ [?ws]) (fs w) = ?t1 @ [(?ws, Dir)]"
    unfolding anc using none1 by simp
  have ex: "\<not> list_ex (isfile (fs w)) (ancestors ?ws)"
    unfolding anc using nf by simp
  have "os_makedirs ?ws w = (Inr (), (log_event (Makedirs ?ws) w)\<lparr>fs := ?t1 @ [(?ws, Dir)]\<rparr>)"
    unfolding os_makedirs_def Let_def mk using none ex ne by simp
  then show ?thesis
    unfolding StagingContext_def initialize_def workspace_path Let_def by simp
qed

lemma StagingContext_fails:
  assumes "map_of (fs w) (''/tmp/'' @ str_int rnd) \<noteq> None \<or> isfile (fs w) ''/tmp''"
  shows "StagingContext ''/tmp/'' rnd w =
     (Inl OSError, log_event (Makedirs (''/tmp/'' @ str_int rnd)) w)"
proof -
  let ?ws = "''/tmp/'' @ str_int rnd"
  have anc: "ancestors ?ws = [''/tmp'']" by (rule ancestors_tmp [OF str_int_no_slash])
  have "os_makedirs ?ws w = (Inl OSError, log_event (Makedirs ?ws) w)"
    unfolding os_makedirs_def Let_def anc using assms by auto
  then show ?thesis
    unfolding StagingContext_def initialize_def workspace_path Let_def by simp
qed

section \<open>Extraction\<close>



lemma write_file_other:
  "q \<noteq> p \<Longrightarrow> map_of (fs (snd (write_file err p c w))) q = map_of (fs w) q"
  by (simp add: write_file_def Let_def update_conv')








section \<open>Downloads leave other files alone\<close>

lemma client_download_file_keeps:
  assumes "map_of (fs w) t = Some n"
    and "\<forall>objs. s3 w b = Some objs \<longrightarrow> (\<forall>ob \<in> set objs. os_path_join d (Key ob) \<noteq> t)"
  shows "map_of (fs (snd (client_download_file b k (os_path_join d k) w))) t = Some n"
proof (cases "s3 w b")
  case None
  with assms(1) show ?thesis by (simp add: client_download_file_def Let_def)
next
  case (Some objs)
  show ?thesis
  proof (cases "find (\<lambda>ob. Key ob = k) objs")
    case None
    with Some assms(1) show ?thesis by (simp add: client_download_file_def Let_def)
  next
    case found: (Some ob)
    then have "ob \<in> set objs" "Key ob = k"
      by (auto simp: find_Some_iff)
    with assms(2) Some have "t \<noteq> os_path_join d k" by auto
    with Some found assms(1) show ?thesis
      by (simp add: client_download_file_def Let_def write_file_other)
  qed
qed

lemma download_latest_keeps:
  assumes "map_of (fs w) t = Some n"
    and "\<forall>objs. s3 w (s_bucket st) = Some objs
           \<longrightarrow> (\<forall>ob \<in> set objs. os_path_join d (Key ob) \<noteq> t)"
  shows "map_of (fs (snd (download st LATEST d a w))) t = Some n"
proof -
  let ?w1 = "log_event (ListObjects (s_bucket st) (s_path st)) w"
  have k: "map_of (fs (snd (download_to st d k ?w1))) t = Some n" for k
    using client_download_file_keeps [of ?w1 t n "s_bucket st" d k] assms
    by (cases "client_download_file (s_bucket st) k (os_path_join d k) ?w1";
        cases "fst (client_download_file (s_bucket st) k (os_path_join d k) ?w1)")
       (simp_all add: download_to_def Let_def)
  show ?thesis
    using assms(1) k
    by (simp add: download_def list_objects_cases py_last_def)
qed

section \<open>A bucket larger than one listing request returns\<close>









section \<open>Backup, then restore\<close>

text \<open>
  Claim C1 says that a backup followed by a restore from the latest object reproduces
  the files under the restore target. In the code, \<^verbatim>\<open>restore\<close> passes the temporary
  file's name as \<^verbatim>\<open>as_filename\<close>, which \<^verbatim>\<open>download\<close> ignores for \<^verbatim>\<open>LATEST\<close>: the
  archive is written to the temporary directory under its remote key, and \<^verbatim>\<open>extract\<close>
  opens the temporary file, which is still empty. After a successful backup of
  \<^verbatim>\<open>/srv/data\<close>, restoring to \<^verbatim>\<open>/restore/data\<close> raises \<^verbatim>\<open>ReadError\<close>; nothing is
  restored, and the downloaded archive stays behind as \<^verbatim>\<open>/tmp/data.tgz\<close>.
\<close>

theorem C1_restore_reads_the_empty_temporary_file:
  "fst (backup (ex_handler ''bk'' ''/srv/data'' None) None None 123456789
          (ex_world [] ex_files)) = Inr ()
   \<and> fst (restore (ex_handler ''bk'' ''/srv/data'' None) (Some ''/restore/data'') ''/tmp/tmpab12cd''
          (snd (backup (ex_handler ''bk'' ''/srv/data'' None) None None 123456789
                  (ex_world [] ex_files)))) = Inl ReadError
   \<and> fs (snd (restore (ex_handler ''bk'' ''/srv/data'' None) (Some ''/restore/data'') ''/tmp/tmpab12cd''
          (snd (backup (ex_handler ''bk'' ''/srv/data'' None) None None 123456789
                  (ex_world [] ex_files)))))
       = ex_files @ [(''/tmp/data.tgz'',
            File (TarGz [(''data'', None), (''data/a.txt'', Some (Bytes ''hello'')),
                         (''data/sub'', None), (''data/sub/b.txt'', Some (Bytes ''bye''))]))]"
  by code_simp

text \<open>
  The same holds in every world: unless some key of the bucket, joined to the temporary
  directory, is the temporary file's own name, \<^verbatim>\<open>restore\<close> raises.
\<close>

lemma restore_raises_unless_key_is_tmpname:
  assumes "\<forall>objs. s3 w (s_bucket (h_store h)) = Some objs
     \<longrightarrow> (\<forall>ob \<in> set objs. os_path_join (os_path_dirname tmpname) (Key ob) \<noteq> tmpname)"
  shows "\<exists>e. fst (restore h directory tmpname w) = Inl e"
proof (cases "NamedTemporaryFile tmpname w")
  case (Pair r1 w1)
  show ?thesis
  proof (cases r1)
    case (Inl x)
    with Pair show ?thesis by (simp add: restore_def Let_def)
  next
    case (Inr f)
    with Pair have f: "f = tmpname" and tmp: "map_of (fs w1) tmpname = Some (File (Bytes []))"
      and s: "s3 w1 = s3 w"
      by (auto simp: NamedTemporaryFile_def write_file_def Let_def update_conv'
            split: if_splits)
    let ?dl = "download (h_store h) LATEST (os_path_dirname tmpname)
                 (Some (last (split_on CHR ''/'' tmpname))) w1"
    let ?dir = "get_dirname w (py_or directory (backupdir h))"
    have keep: "map_of (fs (snd ?dl)) tmpname = Some (File (Bytes []))"
      by (rule download_latest_keeps [OF tmp]) (use assms s in simp)
    have inner: "\<exists>e w3. (case ?dl of (Inl x, w2) \<Rightarrow> (Inl x, w2)
                 | (Inr local, w2) \<Rightarrow> extract' tmpname ?dir w2) = (Inl e, w3)"
    proof (cases ?dl)
      case dl: (Pair r2 w2)
      show ?thesis
      proof (cases r2)
        case (Inl x)
        with dl show ?thesis by simp
      next
        case (Inr local)
        from keep dl have "tarfile_open tmpname w2 = Inl ReadError"
          by (simp add: tarfile_open_def)
        with dl Inr show ?thesis by (simp add: extract'_def Let_def)
      qed
    qed
    then obtain e w3 where i: "(case ?dl of (Inl x, w2) \<Rightarrow> (Inl x, w2)
                 | (Inr local, w2) \<Rightarrow> extract' tmpname ?dir w2) = (Inl e, w3)"
      by blast
    show ?thesis
      using Pair Inr f i
      by (cases "os_unlink tmpname w3"; cases "fst (os_unlink tmpname w3)")
         (auto simp: restore_def Let_def)
  qed
qed

section \<open>Which object \<^verbatim>\<open>LATEST\<close> resolves to\<close>

text \<open>
  Claim C2 says that \<^verbatim>\<open>download\<close> with \<^verbatim>\<open>LATEST\<close> fetches the most recently modified
  object. The code takes the last file name of the listing as it comes, unsorted. In a
  bucket listing \<^verbatim>\<open>a.tar.gz\<close> (modified at 200) before \<^verbatim>\<open>b.tar.gz\<close> (modified at
  100), it downloads \<^verbatim>\<open>b.tar.gz\<close>, although ordering by modification time puts
  \<^verbatim>\<open>a.tar.gz\<close> first.
\<close>

theorem C2_latest_is_last_listed:
  "fst (download ex_store LATEST ''/tmp'' None (ex_world ex_objs2 [(''/tmp'', Dir)]))
       = Inr ''/tmp/b.tar.gz''
   \<and> trace (snd (download ex_store LATEST ''/tmp'' None (ex_world ex_objs2 [(''/tmp'', Dir)])))
       = [ListObjects ''bk'' [], DownloadFile ''bk'' ''b.tar.gz'' ''/tmp/b.tar.gz'',
          WriteFile ''/tmp/b.tar.gz'']
   \<and> filenames (ordered True (listing ex_store ex_objs2)) = [''a.tar.gz'', ''b.tar.gz'']"
  by code_simp

text \<open>In general, \<^verbatim>\<open>LATEST\<close> resolves to the last file name of a non-empty listing.\<close>

lemma download_latest_last:
  assumes "list_objects st w = (Inr L, w1)" and "L \<noteq> []"
  shows "download st LATEST localpath as_filename w = download_to st localpath (filename (last L)) w1"
  using assms by (simp add: download_def py_last_def filenames_def last_map)

section \<open>What pruning deletes for each pattern\<close>

text \<open>
  The claim C3 as first stated (the run keeps the \<open>retain\<close> most recent objects of every
  pattern) fails when patterns overlap. With retain count 1 and the keys \<^verbatim>\<open>a.deb\<close>,
  \<^verbatim>\<open>b.tar.gz\<close>, \<^verbatim>\<open>deb.tar.gz\<close>, \<^verbatim>\<open>notes.txt\<close>, the most recent object matching
  \<^verbatim>\<open>tar.gz\<close> is \<^verbatim>\<open>deb.tar.gz\<close>; it is the overflow of the pattern \<^verbatim>\<open>deb\<close> and is
  deleted, so no object matching \<^verbatim>\<open>tar.gz\<close> is left.
\<close>

theorem C3_counterexample:
  "ordered True (objects_by_pattern ''tar.gz'' (listing ex_store ex_objs3))
       = [BucketObject (ex_obj ''deb.tar.gz'' 20), BucketObject (ex_obj ''b.tar.gz'' 10)]
   \<and> fst (prune_bucket ex_store 1 default_patterns (ex_world ex_objs3 [])) = Inr ()
   \<and> s3 (snd (prune_bucket ex_store 1 default_patterns (ex_world ex_objs3 []))) ''bk''
       = Some [ex_obj ''a.deb'' 30, ex_obj ''notes.txt'' 5]"
  by code_simp

text \<open>
  Claim C3, as amended. For every listing, every retain count that is not negative and
  every category pattern of a run of \<^verbatim>\<open>_prune_bucket\<close> that returns normally: when the
  number of listed objects whose key contains the pattern exceeds the retain count, the
  objects handed to \<^verbatim>\<open>delete\<close> for that pattern are exactly the entries after the
  first \<open>retain\<close> ones of those objects sorted by last-modified time, most recent first
  (a permutation of them, in descending order); the run issues the \<^verbatim>\<open>delete_objects\<close>
  call naming them; and an object of the bucket is still there afterwards if and only
  if no pattern's \<^verbatim>\<open>delete\<close> call names its key. So one of the first \<open>retain\<close>
  entries of a pattern is kept unless the overflow of some pattern contains it.
\<close>

theorem C3_overflow_of_each_pattern:
  assumes "0 \<le> retain"
    and "prune_bucket st retain pats w = (Inr u, w')"
    and "s3 w (s_bucket st) = Some objs"
    and "p \<in> set pats"
    and "int (length (objects_by_pattern p (listing st objs))) > retain"
  shows "to_prune retain p (ordered True (listing st objs))
           = Some (drop (nat retain) (ordered True (objects_by_pattern p (listing st objs))))
     \<and> sorted (rev (map modified (ordered True (objects_by_pattern p (listing st objs)))))
     \<and> mset (ordered True (objects_by_pattern p (listing st objs)))
           = mset (objects_by_pattern p (listing st objs))
     \<and> DeleteObjects (s_bucket st)
           (filenames (drop (nat retain) (ordered True (objects_by_pattern p (listing st objs)))))
         \<in> set (drop (length (trace w)) (trace w'))
     \<and> (\<exists>objs'. s3 w' (s_bucket st) = Some objs'
           \<and> (\<forall>x \<in> set objs. x \<in> set objs' \<longleftrightarrow>
                 \<not> (\<exists>q \<in> set pats. \<exists>tp.
                       to_prune retain q (ordered True (listing st objs)) = Some tp
                       \<and> Key x \<in> set (filenames tp))))"
proof -
  let ?L = "listing st objs"
  let ?over = "drop (nat retain) (ordered True (objects_by_pattern p ?L))"
  have tp: "to_prune retain p (ordered True ?L) = Some ?over"
    using assms(1,5)
    by (simp add: to_prune_def ordered_objects_by_pattern py_slice_from_def)
      (simp add: ordered_def)
  have srt: "sorted (rev (map modified (ordered True (objects_by_pattern p ?L))))"
    by (simp add: ordered_def py_sorted_desc)
  have perm: "mset (ordered True (objects_by_pattern p ?L)) = mset (objects_by_pattern p ?L)"
    by (simp add: ordered_def)
  from prune_bucket_Inr [OF assms(2)] assms(3) have
    s: "s3 w' = (s3 w)(s_bucket st \<mapsto>
          filter (\<lambda>ob. Key ob \<notin> pruned_keys retain (ordered True ?L) pats) objs)"
    and t: "trace w' = trace w @ ListObjects (s_bucket st) (s_path st) #
          (if ?L = [] then []
           else map (DeleteObjects (s_bucket st)) (batches retain (ordered True ?L) pats))"
    by auto
  from assms(1,5) have ne: "?L \<noteq> []" by (auto simp: objects_by_pattern_def)
  have ev: "DeleteObjects (s_bucket st) (filenames ?over) \<in> set (drop (length (trace w)) (trace w'))"
    using batches_member [OF assms(4) tp] ne by (simp add: t)
  have st': "\<exists>objs'. s3 w' (s_bucket st) = Some objs'
           \<and> (\<forall>x \<in> set objs. x \<in> set objs' \<longleftrightarrow>
                 \<not> (\<exists>q \<in> set pats. \<exists>tp.
                       to_prune retain q (ordered True ?L) = Some tp
                       \<and> Key x \<in> set (filenames tp)))"
    by (simp add: s pruned_keys_iff)
  from tp srt perm ev st' show ?thesis by blast
qed

text \<open>The pattern \<^verbatim>\<open>tar.gz\<close> in the four-object bucket, retain count 1.\<close>

theorem C3_witness:
  "to_prune 1 ''tar.gz'' (ordered True (listing ex_store ex_objs3))
      = Some (drop (nat 1) (ordered True (objects_by_pattern ''tar.gz'' (listing ex_store ex_objs3))))
   \<and> DeleteObjects ''bk'' [''b.tar.gz'']
      \<in> set (trace (snd (prune_bucket ex_store 1 default_patterns (ex_world ex_objs3 []))))"
proof -
  let ?w = "ex_world ex_objs3 []"
  have "fst (prune_bucket ex_store 1 default_patterns ?w) = Inr ()" by code_simp
  then have r: "prune_bucket ex_store 1 default_patterns ?w
      = (Inr (), snd (prune_bucket ex_store 1 default_patterns ?w))"
    by (metis prod.collapse)
  have b: "s3 ?w (s_bucket ex_store) = Some ex_objs3" by code_simp
  have p: "''tar.gz'' \<in> set default_patterns" by code_simp
  have n: "int (length (objects_by_pattern ''tar.gz'' (listing ex_store ex_objs3))) > 1"
    by code_simp
  have f: "filenames (drop (nat 1) (ordered True (objects_by_pattern ''tar.gz'' (listing ex_store ex_objs3)))) = [''b.tar.gz'']"
    by code_simp
  have tr: "trace ?w = []" by code_simp
  have bk: "s_bucket ex_store = ''bk''" by code_simp
  have "(0::int) \<le> 1" by simp
  from C3_overflow_of_each_pattern [OF this r b p n]
  have "to_prune 1 ''tar.gz'' (ordered True (listing ex_store ex_objs3))
      = Some (drop (nat 1) (ordered True (objects_by_pattern ''tar.gz'' (listing ex_store ex_objs3))))"
    and "DeleteObjects (s_bucket ex_store)
           (filenames (drop (nat 1) (ordered True (objects_by_pattern ''tar.gz'' (listing ex_store ex_objs3)))))
         \<in> set (drop (length (trace ?w)) (trace (snd (prune_bucket ex_store 1 default_patterns ?w))))"
    by blast+
  then show ?thesis unfolding f tr bk by simp
qed

section \<open>Where \<^verbatim>\<open>extract\<close> extracts to\<close>




section \<open>The workspace is removed on every exit of \<^verbatim>\<open>backup\<close>\<close>

text \<open>
  Claim C5. For every call of \<^verbatim>\<open>backup\<close> whose staging workspace was created (the
  constructor of \<^verbatim>\<open>StagingContext\<close> returned), and however the call ends (normal
  return, an error of staging, of compression or of the upload), the workspace directory
  does not exist afterwards, nor anything below it, and the last call made to the
  outside is the \<^verbatim>\<open>rmtree\<close> of the workspace: the cleanup runs unconditionally.
\<close>

theorem C5_workspace_removed_on_every_exit:
  assumes "StagingContext ''/tmp/'' rnd w = (Inr ctx, w1)"
    and "backup h backup_target rename_to rnd w = (r, w')"
  shows "map_of (fs w') (tmpdir ctx) = None
     \<and> (\<forall>e \<in> set (fs w'). \<not> under (tmpdir ctx) (fst e))
     \<and> last (trace w') = Rmtree (tmpdir ctx)"
proof -
  let ?body = "\<lambda>ctx0 w1.
           case stage ctx0 (get_dirname w (py_or backup_target (backupdir h))) (includes' h) w1 of
             (Inl x, w2) \<Rightarrow> (Inl x, w2)
           | (Inr (bp, ctx1), w2) \<Rightarrow>
               (case compress ctx1 rename_to w2 of
                  (Inl x, w3) \<Rightarrow> (Inl x, w3)
                | (Inr (tp, ctx2), w3) \<Rightarrow>
                    (let final_path = path ctx2 in
                     upload (h_store h) final_path (Some (name ctx2)) w3))"
  have "backup h backup_target rename_to rnd w = with_staging rnd ?body w"
    by (simp add: backup_def Let_def)
  also have "\<dots> = (fst (?body ctx w1),
      (log_event (Rmtree (tmpdir ctx)) (snd (?body ctx w1)))
        \<lparr>fs := filter (\<lambda>e. \<not> under (tmpdir ctx) (fst e)) (fs (snd (?body ctx w1)))\<rparr>)"
    by (rule with_staging_run [OF assms(1)]) (rule backup_body_dir_at)
  finally have "w' = (log_event (Rmtree (tmpdir ctx)) (snd (?body ctx w1)))
        \<lparr>fs := filter (\<lambda>e. \<not> under (tmpdir ctx) (fst e)) (fs (snd (?body ctx w1)))\<rparr>"
    using assms(2) by simp
  then show ?thesis by (simp add: map_of_filter_under)
qed

text \<open>A backup of an empty directory: compression raises, the workspace is gone.\<close>

theorem C5_witness:
  "map_of (fs (snd (backup (ex_handler ''bk'' ''/srv/empty'' None) None None 123456789
                     (ex_world [] ex_files)))) ''/tmp/123456789'' = None
   \<and> last (trace (snd (backup (ex_handler ''bk'' ''/srv/empty'' None) None None 123456789
                     (ex_world [] ex_files)))) = Rmtree ''/tmp/123456789''"
proof -
  let ?w = "ex_world [] ex_files"
  let ?h = "ex_handler ''bk'' ''/srv/empty'' None"
  let ?ctx = "\<lparr>tmpdir = ''/tmp/123456789'', isdir' = False, basepath = [], targetpath = [],
                target_name = []\<rparr>"
  have "fst (StagingContext ''/tmp/'' 123456789 ?w) = Inr ?ctx" by code_simp
  then have sc: "StagingContext ''/tmp/'' 123456789 ?w
      = (Inr ?ctx, snd (StagingContext ''/tmp/'' 123456789 ?w))"
    by (metis prod.collapse)
  have run: "backup ?h None None 123456789 ?w
      = (fst (backup ?h None None 123456789 ?w), snd (backup ?h None None 123456789 ?w))"
    by simp
  from C5_workspace_removed_on_every_exit [OF sc run] show ?thesis by simp
qed

text \<open>
  Each exit path occurs: a normal return; an error of staging (include patterns with a
  target that is a file); an error of compression (an empty directory stages nothing, so
  there is nothing to add to the archive); an error of the upload (no such bucket).
\<close>

lemma backup_exit_paths:
  "fst (backup (ex_handler ''bk'' ''/srv/data'' None) None None 123456789
          (ex_world [] ex_files)) = Inr ()
   \<and> fst (backup (ex_handler ''bk'' ''/srv/data/a.txt'' (Some [''*.txt''])) None None 123456789
          (ex_world [] ex_files)) = Inl Exception
   \<and> fst (backup (ex_handler ''bk'' ''/srv/empty'' None) None None 123456789
          (ex_world [] ex_files)) = Inl OSError
   \<and> fst (backup (ex_handler ''other'' ''/srv/data'' None) None None 123456789
          (ex_world [] ex_files)) = Inl S3UploadFailedError"
  by code_simp

text \<open>The calls of the run that fails in compression, and the bucket after the
  run that succeeds.\<close>

lemma backup_exit_traces:
  "trace (snd (backup (ex_handler ''bk'' ''/srv/empty'' None) None None 123456789
          (ex_world [] ex_files)))
     = [Makedirs ''/tmp/123456789'', WriteFile ''/tmp/123456789/empty.tgz'',
        Rmtree ''/tmp/123456789'']
   \<and> s3 (snd (backup (ex_handler ''bk'' ''/srv/data'' None) None None 123456789
          (ex_world [] ex_files))) ''bk''
     = Some [\<lparr>Key = ''data.tgz'', LastModified = 1000, ETag = [], Size = 0,
              Body = TarGz [(''data'', None), (''data/a.txt'', Some (Bytes ''hello'')),
                            (''data/sub'', None), (''data/sub/b.txt'', Some (Bytes ''bye''))]\<rparr>]"
  by code_simp

section \<open>\<^verbatim>\<open>LATEST\<close> on an empty store\<close>

text \<open>
  Claim C6 says that \<^verbatim>\<open>download\<close> with the sentinel \<^verbatim>\<open>LATEST\<close> on a store that lists
  no object raises the empty-store error (\<^verbatim>\<open>EnvironmentError\<close> in the code) and writes
  nothing. The code means to raise it from the handler \<^verbatim>\<open>except IndexError\<close> around
  \<^verbatim>\<open>self.list_objects().filenames[-1]\<close>. But the listing response of a store without
  objects has no \<^verbatim>\<open>Contents\<close> key, so \<^verbatim>\<open>list_objects\<close> raises \<^verbatim>\<open>KeyError\<close> at
  \<^verbatim>\<open>raw["Contents"]\<close> before any list is indexed, and \<^verbatim>\<open>KeyError\<close> is not caught by
  that handler. On the empty bucket \<^verbatim>\<open>bk\<close> the call raises \<^verbatim>\<open>KeyError\<close>; the only call
  made to the outside is the listing call and the local filesystem is unchanged.
\<close>

theorem C6_empty_store_raises_KeyError:
  "fst (download ex_store LATEST ''/tmp'' None (ex_world [] [(''/tmp'', Dir)])) = Inl KeyError
   \<and> fs (snd (download ex_store LATEST ''/tmp'' None (ex_world [] [(''/tmp'', Dir)])))
       = [(''/tmp'', Dir)]
   \<and> trace (snd (download ex_store LATEST ''/tmp'' None (ex_world [] [(''/tmp'', Dir)])))
       = [ListObjects ''bk'' []]"
  by code_simp

text \<open>
  The same holds in every world where the listing call itself succeeds: when no object
  is under the store's prefix, \<^verbatim>\<open>download\<close> with \<^verbatim>\<open>LATEST\<close> raises \<^verbatim>\<open>KeyError\<close> after
  the listing call alone.
\<close>

lemma download_latest_empty_listing:
  assumes "s3 w (s_bucket st) = Some objs" and "\<not> faulty w PListObjects"
    and "filter (\<lambda>ob. prefix (s_path st) (Key ob)) objs = []"
  shows "download st LATEST localpath as_filename w
           = (Inl KeyError, log_event (ListObjects (s_bucket st) (s_path st)) w)"
  using assms by (simp add: download_def list_objects_cases listing_def)

text \<open>
  A collection that \<^verbatim>\<open>list_objects\<close> returns is never empty, so indexing its file
  names with \<^verbatim>\<open>[-1]\<close> never raises \<^verbatim>\<open>IndexError\<close>: the handler that raises the
  empty-store error is never entered.
\<close>

lemma latest_index_never_fails:
  assumes "list_objects st w = (Inr L, w1)"
  shows "py_last (filenames L) = Inr (filename (last L))"
  using list_objects_nonempty [OF assms] by (simp add: py_last_def filenames_def last_map)

section \<open>Objects matching no pattern are never pruned\<close>

text \<open>
  Claim C7. For every listing, every retain count (of either sign, zero included) and
  every object of the bucket whose key contains none of the category patterns, a run of
  \<^verbatim>\<open>_prune_bucket\<close> never deletes that object: however the run ends, the object is
  still in the bucket and no \<^verbatim>\<open>delete_objects\<close> call of the run names its key.
  Moreover a pattern that no object matches contributes nothing: \<^verbatim>\<open>delete\<close> is either
  not called for it or called with no object at all.
\<close>

theorem C7_unmatched_objects_survive:
  assumes "prune_bucket st retain pats w = (r, w')"
    and "s3 w (s_bucket st) = Some objs"
    and "x \<in> set objs"
    and "\<forall>p \<in> set pats. \<not> py_contains p (Key x)"
  shows "(\<exists>objs'. s3 w' (s_bucket st) = Some objs' \<and> x \<in> set objs')
     \<and> (\<forall>b ks. DeleteObjects b ks \<in> set (drop (length (trace w)) (trace w'))
           \<longrightarrow> Key x \<notin> set ks)
     \<and> (\<forall>p objects. objects_by_pattern p objects = [] \<longrightarrow>
           (case to_prune retain p objects of None \<Rightarrow> True | Some tp \<Rightarrow> tp = []))"
proof -
  from prune_bucket_any [OF assms(1)] obtain K bs where
    K: "\<forall>k \<in> K. \<exists>p \<in> set pats. py_contains p k"
    and bs: "\<forall>ks \<in> set bs. \<forall>k \<in> set ks. \<exists>p \<in> set pats. py_contains p k"
    and s: "s3 w' (s_bucket st) = map_option (filter (\<lambda>ob. Key ob \<notin> K)) (s3 w (s_bucket st))"
    and t: "trace w' = trace w @ ListObjects (s_bucket st) (s_path st)
              # map (DeleteObjects (s_bucket st)) bs"
    by blast
  from K assms(4) have "Key x \<notin> K" by blast
  with s assms(2,3) have a: "\<exists>objs'. s3 w' (s_bucket st) = Some objs' \<and> x \<in> set objs'"
    by simp
  have b: "\<forall>b ks. DeleteObjects b ks \<in> set (drop (length (trace w)) (trace w'))
           \<longrightarrow> Key x \<notin> set ks"
    using bs assms(4) by (auto simp: t)
  have c: "\<forall>p objects. objects_by_pattern p objects = [] \<longrightarrow>
           (case to_prune retain p objects of None \<Rightarrow> True | Some tp \<Rightarrow> tp = [])"
    by (auto simp: to_prune_def py_slice_from_def split: option.splits)
  from a b c show ?thesis by blast
qed

text \<open>\<^verbatim>\<open>notes.txt\<close> survives a run with retain count 0.\<close>

theorem C7_witness:
  "(\<exists>objs'. s3 (snd (prune_bucket ex_store 0 default_patterns (ex_world ex_objs3 []))) ''bk''
       = Some objs' \<and> ex_obj ''notes.txt'' 5 \<in> set objs')"
proof -
  let ?w = "ex_world ex_objs3 []"
  have r: "prune_bucket ex_store 0 default_patterns ?w
      = (fst (prune_bucket ex_store 0 default_patterns ?w),
         snd (prune_bucket ex_store 0 default_patterns ?w))" by simp
  have b: "s3 ?w (s_bucket ex_store) = Some ex_objs3" by code_simp
  have x: "ex_obj ''notes.txt'' 5 \<in> set ex_objs3" by code_simp
  have n: "\<forall>p \<in> set default_patterns. \<not> py_contains p (Key (ex_obj ''notes.txt'' 5))"
    by code_simp
  have bk: "s_bucket ex_store = ''bk''" by code_simp
  from C7_unmatched_objects_survive [OF r b x n] show ?thesis
    by (simp add: bk)
qed

section \<open>Pruning twice\<close>




section \<open>\<^verbatim>\<open>prune\<close> on the handler\<close>

text \<open>
  The claim C9 as first stated (no workspace is opened, no temporary directory is
  created, the filesystem is left unchanged) fails: the call creates the directory
  \<^verbatim>\<open>/tmp/123456789\<close>, and where \<^verbatim>\<open>/tmp\<close> did not exist it is created as well and
  stays behind.
\<close>

theorem C9_counterexample:
  "Makedirs ''/tmp/123456789''
     \<in> set (trace (snd (prune (ex_handler ''bk'' ''/srv/data'' None) 5 123456789
                          (ex_world ex_objs3 ex_files))))
   \<and> fs (snd (prune (ex_handler ''bk'' ''/srv/data'' None) 5 123456789
                 (ex_world ex_objs3 []))) = [(''/tmp'', Dir)]"
  by code_simp

text \<open>
  Claim C9, as amended. Every call of \<^verbatim>\<open>prune\<close> on the handler opens a staging
  workspace around the store's pruning, starting with \<^verbatim>\<open>os.makedirs\<close> of the workspace
  path \<^verbatim>\<open>/tmp/<id>\<close>. If that path exists already, or \<^verbatim>\<open>/tmp\<close> is a regular file, the
  call raises \<^verbatim>\<open>OSError\<close> there and does nothing else: the store's pruning is not
  reached. In every other case the workspace directory is created (and \<^verbatim>\<open>/tmp\<close> with
  it, if it was missing), the call delegates to \<^verbatim>\<open>_prune_bucket\<close> (same result, same
  effect on the buckets, same client calls), and the workspace directory is removed
  again: the local filesystem after the call is the one before it, without anything
  that was below the workspace path, and with \<^verbatim>\<open>/tmp\<close> added if it was missing.
\<close>

theorem C9_prune_opens_and_removes_workspace:
  "(map_of (fs w) (''/tmp/'' @ str_int rnd) \<noteq> None \<or> isfile (fs w) ''/tmp'' \<longrightarrow>
      prune h retain rnd w = (Inl OSError, log_event (Makedirs (''/tmp/'' @ str_int rnd)) w))
   \<and> (map_of (fs w) (''/tmp/'' @ str_int rnd) = None \<and> \<not> isfile (fs w) ''/tmp'' \<longrightarrow>
        fst (prune h retain rnd w) = fst (prune_bucket (h_store h) retain default_patterns w)
      \<and> s3 (snd (prune h retain rnd w))
          = s3 (snd (prune_bucket (h_store h) retain default_patterns w))
      \<and> trace (snd (prune h retain rnd w))
          = trace w @ [Makedirs (''/tmp/'' @ str_int rnd)]
              @ drop (length (trace w))
                  (trace (snd (prune_bucket (h_store h) retain default_patterns w)))
              @ [Rmtree (''/tmp/'' @ str_int rnd)]
      \<and> fs (snd (prune h retain rnd w))
          = filter (\<lambda>e. \<not> under (''/tmp/'' @ str_int rnd) (fst e)) (fs w)
              @ (if map_of (fs w) ''/tmp'' = None then [(''/tmp'', Dir)] else []))"
proof -
  let ?ws = "''/tmp/'' @ str_int rnd"
  let ?ctx = "\<lparr>tmpdir = ?ws, isdir' = False, basepath = [], targetpath = [],
                target_name = []\<rparr>"
  let ?t1 = "if map_of (fs w) ''/tmp'' = None then fs w @ [(''/tmp'', Dir)] else fs w"
  let ?w1 = "(log_event (Makedirs ?ws) w)\<lparr>fs := ?t1 @ [(?ws, Dir)]\<rparr>"
  let ?body = "\<lambda>ctx w1. prune_bucket (h_store h) retain default_patterns w1"
  have A: "prune h retain rnd w = (Inl OSError, log_event (Makedirs ?ws) w)"
    if "map_of (fs w) ?ws \<noteq> None \<or> isfile (fs w) ''/tmp''"
    unfolding prune_def with_staging_def StagingContext_fails [OF that] by simp
  have B: "fst (prune h retain rnd w) = fst (prune_bucket (h_store h) retain default_patterns w)
      \<and> s3 (snd (prune h retain rnd w))
          = s3 (snd (prune_bucket (h_store h) retain default_patterns w))
      \<and> trace (snd (prune h retain rnd w))
          = trace w @ [Makedirs ?ws]
              @ drop (length (trace w))
                  (trace (snd (prune_bucket (h_store h) retain default_patterns w)))
              @ [Rmtree ?ws]
      \<and> fs (snd (prune h retain rnd w))
          = filter (\<lambda>e. \<not> under ?ws (fst e)) (fs w)
              @ (if map_of (fs w) ''/tmp'' = None then [(''/tmp'', Dir)] else [])"
    if none: "map_of (fs w) ?ws = None" and nf: "\<not> isfile (fs w) ''/tmp''"
  proof -
    have sc: "StagingContext ''/tmp/'' rnd w = (Inr ?ctx, ?w1)"
      by (rule StagingContext_tmp [OF none nf])
    have run: "with_staging rnd ?body w =
       (fst (?body ?ctx ?w1),
        (log_event (Rmtree (tmpdir ?ctx)) (snd (?body ?ctx ?w1)))
          \<lparr>fs := filter (\<lambda>e. \<not> under (tmpdir ?ctx) (fst e)) (fs (snd (?body ?ctx ?w1)))\<rparr>)"
      by (rule with_staging_run [OF sc]) (simp add: dir_at_def)
    have ind: "fst (prune_bucket (h_store h) retain default_patterns ?w1)
         = fst (prune_bucket (h_store h) retain default_patterns w)
       \<and> s3 (snd (prune_bucket (h_store h) retain default_patterns ?w1))
         = s3 (snd (prune_bucket (h_store h) retain default_patterns w))
       \<and> drop (length (trace ?w1)) (trace (snd (prune_bucket (h_store h) retain default_patterns ?w1)))
         = drop (length (trace w)) (trace (snd (prune_bucket (h_store h) retain default_patterns w)))"
      by (rule prune_bucket_indep) simp_all
    have ext: "\<exists>evs. trace (snd (prune_bucket st r ps v)) = trace v @ evs" for st r ps v
      using prune_bucket_any [of st r ps v] by (metis append.assoc prod.collapse)
    from ext [of "h_store h" retain default_patterns ?w1] obtain evs where
      evs: "trace (snd (prune_bucket (h_store h) retain default_patterns ?w1)) = trace ?w1 @ evs"
      by blast
    with ind have evs': "drop (length (trace w))
        (trace (snd (prune_bucket (h_store h) retain default_patterns w))) = evs"
      by simp
    have nu: "\<not> under ?ws ''/tmp''" by (simp add: under_def)
    have uw: "under ?ws ?ws" by (simp add: under_def)
    have fil: "filter (\<lambda>e. \<not> under ?ws (fst e)) (?t1 @ [(?ws, Dir)])
        = filter (\<lambda>e. \<not> under ?ws (fst e)) (fs w)
            @ (if map_of (fs w) ''/tmp'' = None then [(''/tmp'', Dir)] else [])"
      using nu uw by (simp del: append.simps)
    show ?thesis
      unfolding prune_def run
      using ind evs fil by (simp add: evs' del: append.simps)
  qed
  from A B show ?thesis by blast
qed

text \<open>A call of \<^verbatim>\<open>prune\<close> in a world with \<^verbatim>\<open>/tmp\<close> and a fresh workspace path, and
  one in a world where the workspace path exists already.\<close>

theorem C9_witness:
  "fs (snd (prune (ex_handler ''bk'' ''/srv/data'' None) 5 123456789
              (ex_world ex_objs3 ex_files))) = ex_files
   \<and> trace (snd (prune (ex_handler ''bk'' ''/srv/data'' None) 5 123456789
              (ex_world ex_objs3 ex_files)))
      = [Makedirs ''/tmp/123456789'', ListObjects ''bk'' [], Rmtree ''/tmp/123456789'']
   \<and> fst (prune (ex_handler ''bk'' ''/srv/data'' None) 5 123456789
              (ex_world ex_objs3 (ex_files @ [(''/tmp/123456789'', Dir)]))) = Inl OSError
   \<and> trace (snd (prune (ex_handler ''bk'' ''/srv/data'' None) 5 123456789
              (ex_world ex_objs3 (ex_files @ [(''/tmp/123456789'', Dir)]))))
      = [Makedirs ''/tmp/123456789'']"
proof -
  let ?w = "ex_world ex_objs3 ex_files"
  let ?v = "ex_world ex_objs3 (ex_files @ [(''/tmp/123456789'', Dir)])"
  let ?h = "ex_handler ''bk'' ''/srv/data'' None"
  have s: "str_int 123456789 = ''123456789''" by code_simp
  have a: "map_of (fs ?w) (''/tmp/'' @ str_int 123456789) = None \<and> \<not> isfile (fs ?w) ''/tmp''"
    unfolding s by code_simp
  have f: "filter (\<lambda>e. \<not> under (''/tmp/'' @ ''123456789'') (fst e)) (fs ?w)
             @ (if map_of (fs ?w) ''/tmp'' = None then [(''/tmp'', Dir)] else []) = ex_files"
    by code_simp
  have t: "trace ?w = []" by code_simp
  have p: "trace (snd (prune_bucket (h_store ?h) 5 default_patterns ?w)) = [ListObjects ''bk'' []]"
    by code_simp
  have c: "map_of (fs ?v) (''/tmp/'' @ str_int 123456789) \<noteq> None \<or> isfile (fs ?v) ''/tmp''"
    unfolding s by code_simp
  have tv: "trace ?v = []" by code_simp
  from C9_prune_opens_and_removes_workspace [of ?w 123456789 ?h 5] a
  have "fs (snd (prune ?h 5 123456789 ?w))
          = filter (\<lambda>e. \<not> under (''/tmp/'' @ str_int 123456789) (fst e)) (fs ?w)
              @ (if map_of (fs ?w) ''/tmp'' = None then [(''/tmp'', Dir)] else [])"
    and "trace (snd (prune ?h 5 123456789 ?w))
          = trace ?w @ [Makedirs (''/tmp/'' @ str_int 123456789)]
              @ drop (length (trace ?w))
                  (trace (snd (prune_bucket (h_store ?h) 5 default_patterns ?w)))
              @ [Rmtree (''/tmp/'' @ str_int 123456789)]"
    by blast+
  then have one: "fs (snd (prune ?h 5 123456789 ?w)) = ex_files"
    and two: "trace (snd (prune ?h 5 123456789 ?w))
      = [Makedirs ''/tmp/123456789'', ListObjects ''bk'' [], Rmtree ''/tmp/123456789'']"
    unfolding s f t p by simp_all
  from C9_prune_opens_and_removes_workspace [of ?v 123456789 ?h 5] c
  have "prune ?h 5 123456789 ?v
      = (Inl OSError, log_event (Makedirs (''/tmp/'' @ str_int 123456789)) ?v)"
    by blast
  then have three: "fst (prune ?h 5 123456789 ?v) = Inl OSError"
    and four: "trace (snd (prune ?h 5 123456789 ?v)) = [Makedirs ''/tmp/123456789'']"
    unfolding s by (simp_all add: tv)
  from one two three four show ?thesis by blast
qed

section \<open>Retain count zero\<close>




end
